theory Spec2Isabelle
  imports Complex_Main "HOL-Library.Multiset" "HOL-Library.List_Lexorder" "HOL-Library.Char_ord"
begin

section \<open>The request-control layer of the KRA-Connect SDK\<close>

text \<open>
  The theory embeds the rate limiters (\<^verbatim>\<open>rate_limiter.py\<close>), the retry delay
  (\<^verbatim>\<open>config.py\<close>), the cache (\<^verbatim>\<open>cache.py\<close>), the HTTP client
  (\<^verbatim>\<open>http_client.py\<close>) and the cacheable read \<^verbatim>\<open>verify_pin\<close>
  (\<^verbatim>\<open>client.py\<close>). Python floats are read as real numbers and Python ints as
  \<^typ>\<open>int\<close>; every \<^verbatim>\<open>raise\<close> is a value \<open>Inl e\<close> of a sum type.
\<close>

subsection \<open>The clock\<close>

text \<open>
  The code reads the clock with \<^verbatim>\<open>time.time()\<close> and waits with
  \<^verbatim>\<open>time.sleep(d)\<close>. The world holds the time of the latest clock event and the
  list of the lags still to come: every \<^verbatim>\<open>time.time()\<close> takes the next lag, moves
  the time by it and returns the result; \<^verbatim>\<open>time.sleep(d)\<close> moves the time by
  \<open>d\<close> (an overrun of the sleep is part of the lag of the next reading). A lag may be
  any real number, so every sequence of readings can be written this way; a clock that never
  runs backwards is one whose lags are all non-negative. A world without lags left has no
  further reading: a computation that asks for one has not returned yet, which is the value
  \<open>None\<close>.
\<close>

record world =
  now :: real
  lags :: "real list"

text \<open>
  Values that \<^verbatim>\<open>json.dumps\<close> can write and \<^verbatim>\<open>response.json()\<close> can return
  (floating point numbers are left out). Strings are lists of code points below 256; a
  dictionary is the list of its items in insertion order.
\<close>

datatype json =
    JNull
  | JBool bool
  | JInt int
  | JStr string
  | JList "json list"
  | JDict "(string \<times> json) list"

datatype kra_error =
    RateLimitExceededError (retry_after: int)
  | ApiTimeoutError real string
  | ApiAuthenticationError string
  | ApiError json "int option"
  | InvalidPinFormatError string
  | KraConnectError string
  | CacheError string string
  | JSONDecodeError
  | ZeroDivisionError
  | OverflowError
  | ValueError string

definition time_time :: "world \<Rightarrow> (real \<times> world) option" where
  "time_time w =
     (case lags w of
        [] \<Rightarrow> None
      | l # ls \<Rightarrow> Some (now w + l, \<lparr>now = now w + l, lags = ls\<rparr>))"

definition time_sleep :: "real \<Rightarrow> world \<Rightarrow> kra_error + world" where
  "time_sleep d w =
     (if d < 0 then Inl (ValueError ''sleep length must be non-negative'')
      else Inr (w\<lparr>now := now w + d\<rparr>))"

definition monotone_clock :: "world \<Rightarrow> bool" where
  "monotone_clock w = list_all (\<lambda>l. 0 \<le> l) (lags w)"

subsection \<open>Rate limit configuration\<close>

record RateLimitConfig =
  max_requests :: int
  window_seconds :: int
  enabled :: bool

definition RateLimitConfig_post_init :: "RateLimitConfig \<Rightarrow> kra_error + RateLimitConfig" where
  "RateLimitConfig_post_init c =
     (if max_requests c \<le> 0 then Inl (ValueError ''max_requests must be positive'')
      else if window_seconds c \<le> 0 then Inl (ValueError ''window_seconds must be positive'')
      else Inr c)"

subsection \<open>Token bucket\<close>

record token_bucket =
  tb_config :: RateLimitConfig
  tokens :: real
  last_refill :: real

definition refill_rate :: "token_bucket \<Rightarrow> real" where
  "refill_rate s =
     real_of_int (max_requests (tb_config s)) / real_of_int (window_seconds (tb_config s))"

text \<open>
  The constructor computes \<^verbatim>\<open>refill_rate\<close> once; the division fails for a window of
  zero seconds, which \<^verbatim>\<open>RateLimitConfig.__post_init__\<close> refuses.
\<close>

definition TokenBucketRateLimiter_init ::
  "RateLimitConfig \<Rightarrow> world \<Rightarrow> ((kra_error + token_bucket) \<times> world) option" where
  "TokenBucketRateLimiter_init config w =
     (case time_time w of
        None \<Rightarrow> None
      | Some (t, w') \<Rightarrow>
          if window_seconds config = 0 then Some (Inl ZeroDivisionError, w')
          else
            Some (Inr \<lparr>tb_config = config, tokens = real_of_int (max_requests config),
                        last_refill = t\<rparr>, w'))"

text \<open>The assignments of \<^verbatim>\<open>_refill_tokens\<close> once the clock has been read as \<open>t\<close>.\<close>

definition refill_at :: "real \<Rightarrow> token_bucket \<Rightarrow> token_bucket" where
  "refill_at t s =
     (let elapsed = t - last_refill s;
          tokens_to_add = elapsed * refill_rate s
      in s\<lparr>tokens := min (tokens s + tokens_to_add) (real_of_int (max_requests (tb_config s))),
            last_refill := t\<rparr>)"

definition refill_tokens :: "token_bucket \<Rightarrow> world \<Rightarrow> (token_bucket \<times> world) option" where
  "refill_tokens s w =
     (case time_time w of
        None \<Rightarrow> None
      | Some (t, w') \<Rightarrow> Some (refill_at t s, w'))"

text \<open>
  The timeout test shared by the waiting loops: with a timeout set the clock is read and
  compared with the start time; without one the clock is not read.
\<close>

definition timed_out :: "real option \<Rightarrow> real \<Rightarrow> world \<Rightarrow> (bool \<times> world) option" where
  "timed_out timeout start_time w =
     (case timeout of
        None \<Rightarrow> Some (False, w)
      | Some limit \<Rightarrow>
          (case time_time w of
             None \<Rightarrow> None
           | Some (t, w') \<Rightarrow> Some (t - start_time \<ge> limit, w')))"

function acquire_loop ::
  "token_bucket \<Rightarrow> int \<Rightarrow> bool \<Rightarrow> real option \<Rightarrow> real \<Rightarrow> world
     \<Rightarrow> ((kra_error + bool) \<times> token_bucket \<times> world) option" where
  "acquire_loop s n block timeout start_time w =
     (case refill_tokens s w of
        None \<Rightarrow> None
      | Some (s1, w1) \<Rightarrow>
          if tokens s1 \<ge> real_of_int n then
            Some (Inr True, s1\<lparr>tokens := tokens s1 - real_of_int n\<rparr>, w1)
          else if \<not> block then
            Some (Inl (RateLimitExceededError (window_seconds (tb_config s1))), s1, w1)
          else
            (case timed_out timeout start_time w1 of
               None \<Rightarrow> None
             | Some (expired, w2) \<Rightarrow>
                 if expired then Some (Inr False, s1, w2)
                 else
                   (let wait_time = min ((real_of_int n - tokens s1) / refill_rate s1) 1
                    in case time_sleep wait_time w2 of
                         Inl e \<Rightarrow> Some (Inl e, s1, w2)
                       | Inr w3 \<Rightarrow> acquire_loop s1 n block timeout start_time w3)))"
  by pat_completeness auto
termination
  by (relation "measure (\<lambda>(s, n, block, timeout, start_time, w). length (lags w))")
    (auto simp: refill_tokens_def timed_out_def time_time_def time_sleep_def
      split: option.splits list.splits if_splits)

declare acquire_loop.simps [simp del]

definition acquire ::
  "token_bucket \<Rightarrow> int \<Rightarrow> bool \<Rightarrow> real option \<Rightarrow> world
     \<Rightarrow> ((kra_error + bool) \<times> token_bucket \<times> world) option" where
  "acquire s n block timeout w =
     (if \<not> enabled (tb_config s) then Some (Inr True, s, w)
      else
        (case time_time w of
           None \<Rightarrow> None
         | Some (start_time, w0) \<Rightarrow> acquire_loop s n block timeout start_time w0))"

definition reset :: "token_bucket \<Rightarrow> world \<Rightarrow> (token_bucket \<times> world) option" where
  "reset s w =
     (case time_time w of
        None \<Rightarrow> None
      | Some (t, w') \<Rightarrow>
          Some (s\<lparr>tokens := real_of_int (max_requests (tb_config s)), last_refill := t\<rparr>, w'))"

text \<open>\<^verbatim>\<open>int(self.tokens)\<close> truncates towards zero.\<close>

definition py_int_of_float :: "real \<Rightarrow> int" where
  "py_int_of_float x = (if 0 \<le> x then \<lfloor>x\<rfloor> else \<lceil>x\<rceil>)"

definition get_available_tokens :: "token_bucket \<Rightarrow> world \<Rightarrow> (int \<times> token_bucket \<times> world) option" where
  "get_available_tokens s w =
     (case refill_tokens s w of
        None \<Rightarrow> None
      | Some (s1, w1) \<Rightarrow> Some (py_int_of_float (tokens s1), s1, w1))"

text \<open>
  Sequences of operations on one limiter. An operation that has not returned when the
  clock readings run out ends the trace; the trace lists, for every completed operation,
  its outcome and the state and world it leaves.
\<close>

datatype tb_op = Acquire int bool "real option" | GetAvailableTokens | Reset

datatype tb_outcome = Acquired "kra_error + bool" | Available int | WasReset

fun tb_step :: "tb_op \<Rightarrow> token_bucket \<Rightarrow> world \<Rightarrow> (tb_outcome \<times> token_bucket \<times> world) option" where
  "tb_step (Acquire n block timeout) s w =
     (case acquire s n block timeout w of
        None \<Rightarrow> None
      | Some (r, s', w') \<Rightarrow> Some (Acquired r, s', w'))"
| "tb_step GetAvailableTokens s w =
     (case get_available_tokens s w of
        None \<Rightarrow> None
      | Some (k, s', w') \<Rightarrow> Some (Available k, s', w'))"
| "tb_step Reset s w =
     (case reset s w of
        None \<Rightarrow> None
      | Some (s', w') \<Rightarrow> Some (WasReset, s', w'))"

fun tb_run :: "tb_op list \<Rightarrow> token_bucket \<Rightarrow> world \<Rightarrow> (tb_op \<times> tb_outcome \<times> token_bucket \<times> world) list" where
  "tb_run [] s w = []"
| "tb_run (operation # ops) s w =
     (case tb_step operation s w of
        None \<Rightarrow> []
      | Some (out, s', w') \<Rightarrow> (operation, out, s', w') # tb_run ops s' w')"

fun nonneg_cost :: "tb_op \<Rightarrow> bool" where
  "nonneg_cost (Acquire n block timeout) = (0 \<le> n)"
| "nonneg_cost GetAvailableTokens = True"
| "nonneg_cost Reset = True"


text \<open>The invariant of the bucket, with the clock that its timestamps come from.\<close>

definition tb_inv :: "token_bucket \<Rightarrow> world \<Rightarrow> bool" where
  "tb_inv s w \<longleftrightarrow> 0 \<le> tokens s \<and> tokens s \<le> real_of_int (max_requests (tb_config s))
     \<and> last_refill s \<le> now w \<and> monotone_clock w"

subsection \<open>Sliding window\<close>

record sliding_window =
  sw_config :: RateLimitConfig
  requests :: "real list"

definition SlidingWindowRateLimiter_init :: "RateLimitConfig \<Rightarrow> sliding_window" where
  "SlidingWindowRateLimiter_init config = \<lparr>sw_config = config, requests = []\<rparr>"

text \<open>The loop of \<^verbatim>\<open>_clean_old_requests\<close>: pop from the left while the head is older than the cutoff.\<close>

fun popleft_old :: "real \<Rightarrow> real list \<Rightarrow> real list" where
  "popleft_old cutoff [] = []"
| "popleft_old cutoff (r # rs) = (if r < cutoff then popleft_old cutoff rs else r # rs)"

definition clean_at :: "real \<Rightarrow> sliding_window \<Rightarrow> sliding_window" where
  "clean_at t s =
     (let cutoff = t - real_of_int (window_seconds (sw_config s))
      in s\<lparr>requests := popleft_old cutoff (requests s)\<rparr>)"

definition clean_old_requests :: "sliding_window \<Rightarrow> world \<Rightarrow> (sliding_window \<times> world) option" where
  "clean_old_requests s w =
     (case time_time w of
        None \<Rightarrow> None
      | Some (t, w') \<Rightarrow> Some (clean_at t s, w'))"

text \<open>The wait of one iteration: the clock is read only when a timestamp is retained.\<close>

definition sw_wait_time :: "sliding_window \<Rightarrow> world \<Rightarrow> (real \<times> world) option" where
  "sw_wait_time s w =
     (case requests s of
        [] \<Rightarrow> Some (1 / 10, w)
      | oldest_request # _ \<Rightarrow>
          (case time_time w of
             None \<Rightarrow> None
           | Some (t, w') \<Rightarrow>
               (let wait_time = (oldest_request + real_of_int (window_seconds (sw_config s))) - t
                in Some (max (1 / 10) (min wait_time 1), w'))))"

function sw_acquire_loop ::
  "sliding_window \<Rightarrow> bool \<Rightarrow> real option \<Rightarrow> real \<Rightarrow> world
     \<Rightarrow> ((kra_error + bool) \<times> sliding_window \<times> world) option" where
  "sw_acquire_loop s block timeout start_time w =
     (case clean_old_requests s w of
        None \<Rightarrow> None
      | Some (s1, w1) \<Rightarrow>
          if int (length (requests s1)) < max_requests (sw_config s1) then
            (case time_time w1 of
               None \<Rightarrow> None
             | Some (t, w2) \<Rightarrow> Some (Inr True, s1\<lparr>requests := requests s1 @ [t]\<rparr>, w2))
          else if \<not> block then
            Some (Inl (RateLimitExceededError (window_seconds (sw_config s1))), s1, w1)
          else
            (case timed_out timeout start_time w1 of
               None \<Rightarrow> None
             | Some (expired, w2) \<Rightarrow>
                 if expired then Some (Inr False, s1, w2)
                 else
                   (case sw_wait_time s1 w2 of
                      None \<Rightarrow> None
                    | Some (wait_time, w3) \<Rightarrow>
                        (case time_sleep wait_time w3 of
                           Inl e \<Rightarrow> Some (Inl e, s1, w3)
                         | Inr w4 \<Rightarrow> sw_acquire_loop s1 block timeout start_time w4))))"
  by pat_completeness auto
termination
  by (relation "measure (\<lambda>(s, block, timeout, start_time, w). length (lags w))")
    (auto simp: clean_old_requests_def sw_wait_time_def timed_out_def time_time_def time_sleep_def
      Let_def split: option.splits list.splits if_splits)

declare sw_acquire_loop.simps [simp del]

definition sw_acquire ::
  "sliding_window \<Rightarrow> bool \<Rightarrow> real option \<Rightarrow> world
     \<Rightarrow> ((kra_error + bool) \<times> sliding_window \<times> world) option" where
  "sw_acquire s block timeout w =
     (if \<not> enabled (sw_config s) then Some (Inr True, s, w)
      else
        (case time_time w of
           None \<Rightarrow> None
         | Some (start_time, w0) \<Rightarrow> sw_acquire_loop s block timeout start_time w0))"

definition sw_reset :: "sliding_window \<Rightarrow> sliding_window" where
  "sw_reset s = s\<lparr>requests := []\<rparr>"

definition get_request_count :: "sliding_window \<Rightarrow> world \<Rightarrow> (nat \<times> sliding_window \<times> world) option" where
  "get_request_count s w =
     (case clean_old_requests s w of
        None \<Rightarrow> None
      | Some (s1, w1) \<Rightarrow> Some (length (requests s1), s1, w1))"

datatype sw_op = SwAcquire bool "real option" | GetRequestCount | SwReset

datatype sw_outcome = SwAcquired "kra_error + bool" | RequestCount nat | SwWasReset

fun sw_step :: "sw_op \<Rightarrow> sliding_window \<Rightarrow> world \<Rightarrow> (sw_outcome \<times> sliding_window \<times> world) option" where
  "sw_step (SwAcquire block timeout) s w =
     (case sw_acquire s block timeout w of
        None \<Rightarrow> None
      | Some (r, s', w') \<Rightarrow> Some (SwAcquired r, s', w'))"
| "sw_step GetRequestCount s w =
     (case get_request_count s w of
        None \<Rightarrow> None
      | Some (k, s', w') \<Rightarrow> Some (RequestCount k, s', w'))"
| "sw_step SwReset s w = Some (SwWasReset, sw_reset s, w)"

fun sw_run :: "sw_op list \<Rightarrow> sliding_window \<Rightarrow> world \<Rightarrow> (sw_op \<times> sw_outcome \<times> sliding_window \<times> world) list" where
  "sw_run [] s w = []"
| "sw_run (operation # ops) s w =
     (case sw_step operation s w of
        None \<Rightarrow> []
      | Some (out, s', w') \<Rightarrow> (operation, out, s', w') # sw_run ops s' w')"

text \<open>The invariant of the window: timestamps oldest first, none from the future, at most \<open>max_requests\<close> of them.\<close>

definition sw_inv :: "sliding_window \<Rightarrow> world \<Rightarrow> bool" where
  "sw_inv s w \<longleftrightarrow> sorted (requests s) \<and> (\<forall>r \<in> set (requests s). r \<le> now w)
     \<and> int (length (requests s)) \<le> max_requests (sw_config s) \<and> monotone_clock w"

subsection \<open>Retry delay\<close>

record RetryConfig =
  max_attempts :: int
  initial_delay :: real
  max_delay :: real
  exponential_base :: real
  retry_on_timeout :: bool
  retry_on_rate_limit :: bool

definition RetryConfig_post_init :: "RetryConfig \<Rightarrow> kra_error + RetryConfig" where
  "RetryConfig_post_init c =
     (if max_attempts c < 1 then Inl (ValueError ''max_attempts must be at least 1'')
      else if initial_delay c \<le> 0 then Inl (ValueError ''initial_delay must be positive'')
      else if max_delay c < initial_delay c then
        Inl (ValueError ''max_delay must be greater than or equal to initial_delay'')
      else if exponential_base c \<le> 1 then
        Inl (ValueError ''exponential_base must be greater than 1'')
      else Inr c)"

text \<open>
  The power \<^verbatim>\<open>x ** k\<close> of a float and an int. The arithmetic is that of the real
  numbers, with the two failures of the float power written out: zero to a negative power
  raises \<^verbatim>\<open>ZeroDivisionError\<close>, and a result beyond the range of a double raises
  \<^verbatim>\<open>OverflowError\<close>. A magnitude rounds to infinity from \<open>2 ^ 1024 - 2 ^ 970\<close> on
  (half an ulp above the largest double).
\<close>

definition float_overflow :: real where
  "float_overflow = 2 ^ 1024 - 2 ^ 970"

definition py_float_pow :: "real \<Rightarrow> int \<Rightarrow> kra_error + real" where
  "py_float_pow x k =
     (if x = 0 \<and> k < 0 then Inl ZeroDivisionError
      else if \<bar>x powi k\<bar> \<ge> float_overflow then Inl OverflowError
      else Inr (x powi k))"

text \<open>The delay before the jitter is added: the first statement of \<^verbatim>\<open>get_delay\<close>.\<close>

definition base_delay :: "RetryConfig \<Rightarrow> int \<Rightarrow> kra_error + real" where
  "base_delay c attempt =
     (case py_float_pow (exponential_base c) attempt of
        Inl e \<Rightarrow> Inl e
      | Inr p \<Rightarrow> Inr (min (initial_delay c * p) (max_delay c)))"

text \<open>
  \<^verbatim>\<open>get_delay\<close>; the argument \<open>r\<close> is the number that \<^verbatim>\<open>random.random()\<close>
  returns, which lies in \<open>[0, 1)\<close>.
\<close>

definition get_delay :: "RetryConfig \<Rightarrow> int \<Rightarrow> real \<Rightarrow> kra_error + real" where
  "get_delay c attempt r =
     (case base_delay c attempt of
        Inl e \<Rightarrow> Inl e
      | Inr delay \<Rightarrow>
          (let jitter = delay * (1 / 4) * (2 * r - 1)
           in Inr (max 0 (delay + jitter))))"

subsection \<open>Cache keys\<close>

text \<open>
  The keyword arguments of \<^verbatim>\<open>generate_key\<close> are a dictionary from names to values:
  an association list in the order in which the caller passed them.
\<close>

fun str_nat :: "nat \<Rightarrow> string" where
  "str_nat n =
     (if n < 10 then [''0123456789'' ! n]
      else str_nat (n div 10) @ [''0123456789'' ! (n mod 10)])"

definition str_int :: "int \<Rightarrow> string" where
  "str_int i = (if i < 0 then ''-'' @ str_nat (nat (- i)) else str_nat (nat i))"

text \<open>\<^verbatim>\<open>encode_basestring_ascii\<close> of the \<^verbatim>\<open>json\<close> module, one character at a time.\<close>

definition escape_char :: "char \<Rightarrow> string" where
  "escape_char c =
     (if c = CHR 0x22 then [CHR 0x5C, CHR 0x22]
      else if c = CHR 0x5C then [CHR 0x5C, CHR 0x5C]
      else if c = CHR 0x0A then [CHR 0x5C, CHR ''n'']
      else if c = CHR 0x0D then [CHR 0x5C, CHR ''r'']
      else if c = CHR 0x09 then [CHR 0x5C, CHR ''t'']
      else if c = CHR 0x08 then [CHR 0x5C, CHR ''b'']
      else if c = CHR 0x0C then [CHR 0x5C, CHR ''f'']
      else if 0x20 \<le> (of_char c :: nat) \<and> (of_char c :: nat) \<le> 0x7E then [c]
      else [CHR 0x5C, CHR ''u'', CHR ''0'', CHR ''0'',
            ''0123456789abcdef'' ! ((of_char c :: nat) div 16),
            ''0123456789abcdef'' ! ((of_char c :: nat) mod 16)])"

definition encode_basestring_ascii :: "string \<Rightarrow> string" where
  "encode_basestring_ascii s = [CHR 0x22] @ concat (map escape_char s) @ [CHR 0x22]"

fun join :: "string \<Rightarrow> string list \<Rightarrow> string" where
  "join sep [] = []"
| "join sep [x] = x"
| "join sep (x # y # ys) = x @ sep @ join sep (y # ys)"

text \<open>
  \<^verbatim>\<open>json.dumps(value, sort_keys=True)\<close>: the items of every dictionary are written in
  the order of their keys.
\<close>

fun json_dumps :: "json \<Rightarrow> string" where
  "json_dumps JNull = ''null''"
| "json_dumps (JBool b) = (if b then ''true'' else ''false'')"
| "json_dumps (JInt i) = str_int i"
| "json_dumps (JStr s) = encode_basestring_ascii s"
| "json_dumps (JList xs) = ''['' @ join '', '' (map json_dumps xs) @ '']''"
| "json_dumps (JDict kvs) =
     ''{'' @ join '', ''
        (map (\<lambda>(k, d). encode_basestring_ascii k @ '': '' @ d)
           (sort_key fst (map (\<lambda>(k, v). (k, json_dumps v)) kvs))) @ ''}''"

text \<open>
  \<^verbatim>\<open>generate_key\<close>. The digest \<^verbatim>\<open>hashlib.md5(s.encode()).hexdigest()\<close> belongs to
  the standard library and is a parameter, \<open>md5_hexdigest\<close>.
\<close>

definition generate_key :: "(string \<Rightarrow> string) \<Rightarrow> string \<Rightarrow> (string \<times> json) list \<Rightarrow> string" where
  "generate_key md5_hexdigest prefix kwargs =
     (let param_string = json_dumps (JDict kwargs);
          hash_hex = md5_hexdigest param_string
      in prefix @ '':'' @ hash_hex)"

subsection \<open>Cache\<close>

record CacheConfig =
  cache_enabled :: bool
  ttl :: int
  max_size :: int

definition CacheConfig_post_init :: "CacheConfig \<Rightarrow> kra_error + CacheConfig" where
  "CacheConfig_post_init c =
     (if ttl c \<le> 0 then Inl (ValueError ''ttl must be positive'')
      else if max_size c \<le> 0 then Inl (ValueError ''max_size must be positive'')
      else Inr c)"

text \<open>
  \<^verbatim>\<open>TTLCache\<close> is the class of the \<^verbatim>\<open>cachetools\<close> library that
  \<^verbatim>\<open>MemoryCacheBackend\<close> wraps; it is not part of the repository, and is written here
  after the library's documented behaviour: a mapping of at most \<open>maxsize\<close> items, each of
  which expires \<open>ttl\<close> seconds after it was stored (one \<open>ttl\<close> for the whole cache, fixed
  when the cache is built), the least recently used item being evicted when room is needed.
  The list of links is in order of use, the least recently used item first, and holds for
  every key its value and the time at which it expires. Every operation takes the reading
  \<open>t\<close> of the cache's timer.
\<close>

record 'v TTLCache =
  maxsize :: int
  timer_ttl :: real
  links :: "(string \<times> 'v \<times> real) list"

definition TTLCache_contains :: "'v TTLCache \<Rightarrow> string \<Rightarrow> real \<Rightarrow> bool" where
  "TTLCache_contains c key t =
     (case map_of (links c) key of
        None \<Rightarrow> False
      | Some (v, expires) \<Rightarrow> t < expires)"

definition TTLCache_get :: "'v TTLCache \<Rightarrow> string \<Rightarrow> real \<Rightarrow> 'v option \<times> 'v TTLCache" where
  "TTLCache_get c key t =
     (case map_of (links c) key of
        None \<Rightarrow> (None, c)
      | Some (v, expires) \<Rightarrow>
          if t < expires then
            (Some v, c\<lparr>links := filter (\<lambda>(k, x). k \<noteq> key) (links c) @ [(key, v, expires)]\<rparr>)
          else (None, c))"

definition TTLCache_expire :: "'v TTLCache \<Rightarrow> real \<Rightarrow> 'v TTLCache" where
  "TTLCache_expire c t = c\<lparr>links := filter (\<lambda>(k, v, expires). t < expires) (links c)\<rparr>"

text \<open>
  Storing an item: the expired items go first; an item does not fit a cache of size zero,
  which is an error (the second component is the cache as the failed call leaves it);
  otherwise the least recently used items make room for a new key, and the item is stored
  as the most recently used one, expiring \<open>ttl\<close> seconds from now.
\<close>

definition TTLCache_setitem ::
  "'v TTLCache \<Rightarrow> string \<Rightarrow> 'v \<Rightarrow> real \<Rightarrow> kra_error option \<times> 'v TTLCache" where
  "TTLCache_setitem c key v t =
     (let c1 = TTLCache_expire c t
      in if 1 > maxsize c1 then (Some (ValueError ''value too large''), c1)
         else
           (let kept =
                  (if map_of (links c1) key = None
                   then drop (nat (int (length (links c1)) + 1 - maxsize c1)) (links c1)
                   else links c1)
            in (None, c1\<lparr>links := filter (\<lambda>(k, x). k \<noteq> key) kept @ [(key, v, t + timer_ttl c1)]\<rparr>)))"

definition TTLCache_delitem :: "'v TTLCache \<Rightarrow> string \<Rightarrow> 'v TTLCache" where
  "TTLCache_delitem c key = c\<lparr>links := filter (\<lambda>(k, x). k \<noteq> key) (links c)\<rparr>"

text \<open>
  What the backend stores: \<^verbatim>\<open>CacheManager.set\<close> wraps every value in a
  \<^verbatim>\<open>CacheEntry\<close>; a value put into the backend directly is stored as it is.
\<close>

datatype 'v stored = CacheEntry (entry_value: 'v) (expires_at: real) | Plain 'v

fun is_expired :: "'v stored \<Rightarrow> real \<Rightarrow> bool" where
  "is_expired (CacheEntry v expires) t = (t \<ge> expires)"
| "is_expired (Plain v) t = False"

definition MemoryCacheBackend_init :: "int \<Rightarrow> int \<Rightarrow> 'v TTLCache" where
  "MemoryCacheBackend_init max_size_arg ttl_arg =
     \<lparr>maxsize = max_size_arg, timer_ttl = real_of_int ttl_arg, links = []\<rparr>"

definition MemoryCacheBackend_get :: "'v TTLCache \<Rightarrow> string \<Rightarrow> real \<Rightarrow> 'v option \<times> 'v TTLCache" where
  "MemoryCacheBackend_get c key t = TTLCache_get c key t"

text \<open>The argument \<open>ttl_arg\<close> is not used: the docstring says ``ignored for TTLCache, uses default''.\<close>

definition MemoryCacheBackend_set ::
  "'v TTLCache \<Rightarrow> string \<Rightarrow> 'v \<Rightarrow> int \<Rightarrow> real \<Rightarrow> kra_error option \<times> 'v TTLCache" where
  "MemoryCacheBackend_set c key v ttl_arg t =
     (case TTLCache_setitem c key v t of
        (Some e, c') \<Rightarrow> (Some (CacheError ''Failed to store in cache'' ''set''), c')
      | (None, c') \<Rightarrow> (None, c'))"

definition MemoryCacheBackend_delete :: "'v TTLCache \<Rightarrow> string \<Rightarrow> real \<Rightarrow> 'v TTLCache" where
  "MemoryCacheBackend_delete c key t =
     (if TTLCache_contains c key t then TTLCache_delitem c key else c)"

record 'v CacheManager =
  cm_config :: CacheConfig
  backend :: "'v stored TTLCache"

definition CacheManager_init :: "CacheConfig \<Rightarrow> 'v CacheManager" where
  "CacheManager_init config =
     \<lparr>cm_config = config, backend = MemoryCacheBackend_init (max_size config) (ttl config)\<rparr>"

definition CacheManager_delete :: "'v CacheManager \<Rightarrow> string \<Rightarrow> real \<Rightarrow> 'v CacheManager" where
  "CacheManager_delete m key t =
     (if \<not> cache_enabled (cm_config m) then m
      else m\<lparr>backend := MemoryCacheBackend_delete (backend m) key t\<rparr>)"

text \<open>
  \<^verbatim>\<open>CacheManager.get\<close> and \<^verbatim>\<open>CacheManager.set\<close> at the clock reading \<open>t\<close>: one
  call is taken to be instantaneous, so the timer of the backend and
  \<^verbatim>\<open>time.time()\<close> show the same time during it. The result \<open>None\<close> is Python's
  \<^verbatim>\<open>None\<close>, the absent value.
\<close>

definition CacheManager_get :: "'v CacheManager \<Rightarrow> string \<Rightarrow> real \<Rightarrow> 'v option \<times> 'v CacheManager" where
  "CacheManager_get m key t =
     (if \<not> cache_enabled (cm_config m) then (None, m)
      else
        (case MemoryCacheBackend_get (backend m) key t of
           (None, b) \<Rightarrow> (None, m\<lparr>backend := b\<rparr>)
         | (Some entry, b) \<Rightarrow>
             (case entry of
                CacheEntry v expires \<Rightarrow>
                  if is_expired entry t then (None, CacheManager_delete (m\<lparr>backend := b\<rparr>) key t)
                  else (Some v, m\<lparr>backend := b\<rparr>)
              | Plain v \<Rightarrow> (Some v, m\<lparr>backend := b\<rparr>))))"

definition CacheManager_set :: "'v CacheManager \<Rightarrow> string \<Rightarrow> 'v \<Rightarrow> int option \<Rightarrow> real \<Rightarrow> 'v CacheManager" where
  "CacheManager_set m key v ttl_arg t =
     (if \<not> cache_enabled (cm_config m) then m
      else
        (let ttl_used = (case ttl_arg of None \<Rightarrow> ttl (cm_config m)
                         | Some x \<Rightarrow> if x = 0 then ttl (cm_config m) else x)
         in if ttl_used \<le> 0 then m
            else
              (let entry = CacheEntry v (t + real_of_int ttl_used)
               in case MemoryCacheBackend_set (backend m) key entry ttl_used t of
                    (Some e, b) \<Rightarrow> m\<lparr>backend := b\<rparr>
                  | (None, b) \<Rightarrow> m\<lparr>backend := b\<rparr>)))"

text \<open>
  The two calls with the clock of the world. \<^verbatim>\<open>CacheManager.get\<close> reads no clock when
  caching is disabled, nor when the backend holds no item for the key (the lookup of the
  \<^verbatim>\<open>TTLCache\<close> asks its timer only for a key it holds); \<^verbatim>\<open>CacheManager.set\<close>
  reads none when caching is disabled or the TTL is not positive.
\<close>

definition CacheManager_get_w ::
  "'v CacheManager \<Rightarrow> string \<Rightarrow> world \<Rightarrow> (('v option \<times> 'v CacheManager) \<times> world) option" where
  "CacheManager_get_w m key w =
     (if \<not> cache_enabled (cm_config m) then Some ((None, m), w)
      else if map_of (links (backend m)) key = None then Some ((None, m), w)
      else
        (case time_time w of
           None \<Rightarrow> None
         | Some (t, w') \<Rightarrow> Some (CacheManager_get m key t, w')))"

definition CacheManager_set_w ::
  "'v CacheManager \<Rightarrow> string \<Rightarrow> 'v \<Rightarrow> int option \<Rightarrow> world \<Rightarrow> ('v CacheManager \<times> world) option" where
  "CacheManager_set_w m key v ttl_arg w =
     (if \<not> cache_enabled (cm_config m) then Some (m, w)
      else if (case ttl_arg of None \<Rightarrow> ttl (cm_config m)
               | Some x \<Rightarrow> if x = 0 then ttl (cm_config m) else x) \<le> 0 then Some (m, w)
      else
        (case time_time w of
           None \<Rightarrow> None
         | Some (t, w') \<Rightarrow> Some (CacheManager_set m key v ttl_arg t, w')))"

subsection \<open>HTTP client\<close>

text \<open>
  The transport (\<^verbatim>\<open>httpx\<close>) is outside the repository: the client holds the list of
  the outcomes of the transport calls still to come, and every request takes the first.
  A request made when the list is empty has no answer yet.
\<close>

datatype retry_after_header = NoRetryAfter | RetryAfter int | BadRetryAfter

record http_response =
  status_code :: int
  body :: "json option"
  retry_after_hdr :: retry_after_header

datatype transport_outcome =
    Response http_response
  | TimeoutException string
  | NetworkError string
  | HTTPError string

record HttpClient =
  config_timeout :: real
  retry_config :: RetryConfig
  transport :: "transport_outcome list"

definition client_error_message :: "json option \<Rightarrow> string \<Rightarrow> json" where
  "client_error_message b error_message =
     (case b of
        Some (JDict kvs) \<Rightarrow>
          (case map_of kvs ''message'' of
             None \<Rightarrow> JStr error_message
           | Some m \<Rightarrow> m)
      | _ \<Rightarrow> JStr error_message)"

definition handle_response :: "http_response \<Rightarrow> string \<Rightarrow> kra_error + json" where
  "handle_response response endpoint =
     (if status_code response = 200 then
        (case body response of None \<Rightarrow> Inl JSONDecodeError | Some j \<Rightarrow> Inr j)
      else if status_code response = 401 then
        Inl (ApiAuthenticationError ''Invalid API key or authentication failed'')
      else if status_code response = 429 then
        (case retry_after_hdr response of
           NoRetryAfter \<Rightarrow> Inl (RateLimitExceededError 60)
         | RetryAfter k \<Rightarrow> Inl (RateLimitExceededError k)
         | BadRetryAfter \<Rightarrow> Inl (ValueError ''invalid literal for int()''))
      else if 400 \<le> status_code response \<and> status_code response < 500 then
        Inl (ApiError
               (client_error_message (body response)
                  (''Client error: '' @ str_int (status_code response)))
               (Some (status_code response)))
      else if status_code response \<ge> 500 then
        Inl (ApiError (JStr (''Server error: '' @ str_int (status_code response)))
               (Some (status_code response)))
      else
        Inl (ApiError (JStr (''Unexpected status code: '' @ str_int (status_code response)))
               (Some (status_code response))))"

text \<open>
  \<^verbatim>\<open>HttpClient.post\<close>: one transport call; its outcome is returned or raised. The method
  is not wrapped in the decorator that \<^verbatim>\<open>_create_retry_decorator\<close> builds (nothing
  in the repository calls \<^verbatim>\<open>_create_retry_decorator\<close>), it reads no clock and it
  does not sleep.
\<close>

definition HttpClient_post ::
  "HttpClient \<Rightarrow> string \<Rightarrow> json \<Rightarrow> ((kra_error + json) \<times> HttpClient) option" where
  "HttpClient_post h endpoint json_data =
     (case transport h of
        [] \<Rightarrow> None
      | outcome # rest \<Rightarrow>
          Some
            (case outcome of
               Response response \<Rightarrow> handle_response response endpoint
             | TimeoutException e \<Rightarrow> Inl (ApiTimeoutError (config_timeout h) endpoint)
             | NetworkError e \<Rightarrow> Inl (ApiError (JStr (''Network error: '' @ e)) None)
             | HTTPError e \<Rightarrow> Inl (ApiError (JStr (''HTTP error: '' @ e)) None),
             h\<lparr>transport := rest\<rparr>))"

subsection \<open>The cacheable read \<^verbatim>\<open>verify_pin\<close>\<close>

text \<open>
  \<^verbatim>\<open>str.strip()\<close> and \<^verbatim>\<open>str.upper()\<close> on code points below 256. The upper case of a
  letter beyond ASCII is left out: no such letter, nor its upper case, is accepted by the
  pattern of a PIN.
\<close>

definition is_space :: "char \<Rightarrow> bool" where
  "is_space c =
     ((9 \<le> (of_char c :: nat) \<and> (of_char c :: nat) \<le> 13)
      \<or> (28 \<le> (of_char c :: nat) \<and> (of_char c :: nat) \<le> 32)
      \<or> (of_char c :: nat) = 0x85 \<or> (of_char c :: nat) = 0xA0)"

definition py_strip :: "string \<Rightarrow> string" where
  "py_strip s = rev (dropWhile is_space (rev (dropWhile is_space s)))"

definition py_upper :: "string \<Rightarrow> string" where
  "py_upper s =
     map (\<lambda>c. if CHR ''a'' \<le> c \<and> c \<le> CHR ''z'' then char_of ((of_char c :: nat) - 32) else c) s"

definition is_digit :: "char \<Rightarrow> bool" where
  "is_digit c = (CHR ''0'' \<le> c \<and> c \<le> CHR ''9'')"

text \<open>The pattern \<^verbatim>\<open>^P\d{9}[A-Z]$\<close> on a string without trailing newline.\<close>

definition PIN_REGEX_match :: "string \<Rightarrow> bool" where
  "PIN_REGEX_match s =
     (length s = 11 \<and> s ! 0 = CHR ''P'' \<and> list_all is_digit (take 9 (drop 1 s))
      \<and> CHR ''A'' \<le> s ! 10 \<and> s ! 10 \<le> CHR ''Z'')"

definition validate_pin_format :: "string \<Rightarrow> kra_error + string" where
  "validate_pin_format pin_number =
     (if pin_number = [] then Inl (InvalidPinFormatError ''PIN number is required'')
      else
        (let normalized_pin = py_upper (py_strip pin_number)
         in if \<not> PIN_REGEX_match normalized_pin then Inl (InvalidPinFormatError normalized_pin)
            else Inr normalized_pin))"

text \<open>The exceptions that derive from \<^verbatim>\<open>KraConnectError\<close>.\<close>

fun is_KraConnectError :: "kra_error \<Rightarrow> bool" where
  "is_KraConnectError JSONDecodeError = False"
| "is_KraConnectError ZeroDivisionError = False"
| "is_KraConnectError OverflowError = False"
| "is_KraConnectError (ValueError m) = False"
| "is_KraConnectError e = True"

record 'r KraClient =
  http_client :: HttpClient
  cache_manager :: "'r CacheManager"
  rate_limiter :: token_bucket

text \<open>
  \<^verbatim>\<open>KraClient.verify_pin\<close>. The construction of the \<^verbatim>\<open>PinVerificationResult\<close> from
  the response (a \<^verbatim>\<open>pydantic\<close> model, which may reject the data) is the parameter
  \<open>make_result\<close>; such a model is a true value in the test \<^verbatim>\<open>if cached_result\<close>.
\<close>

definition verify_pin ::
  "(string \<Rightarrow> string) \<Rightarrow> (string \<Rightarrow> json \<Rightarrow> 'r option) \<Rightarrow> 'r KraClient \<Rightarrow> string \<Rightarrow> world
     \<Rightarrow> ((kra_error + 'r) \<times> 'r KraClient \<times> world) option" where
  "verify_pin md5_hexdigest make_result c pin_number w =
     (case validate_pin_format pin_number of
        Inl e \<Rightarrow> Some (Inl e, c, w)
      | Inr normalized_pin \<Rightarrow>
          (let cache_key = generate_key md5_hexdigest ''pin'' [(''pin_number'', JStr normalized_pin)]
           in case CacheManager_get_w (cache_manager c) cache_key w of
                None \<Rightarrow> None
              | Some ((Some cached_result, m1), w1) \<Rightarrow>
                  Some (Inr cached_result, c\<lparr>cache_manager := m1\<rparr>, w1)
              | Some ((None, m1), w1) \<Rightarrow>
                  (case acquire (rate_limiter c) 1 True None w1 of
                     None \<Rightarrow> None
                   | Some (Inl e, rl, w2) \<Rightarrow>
                       Some (Inl e, c\<lparr>cache_manager := m1, rate_limiter := rl\<rparr>, w2)
                   | Some (Inr granted, rl, w2) \<Rightarrow>
                       (case HttpClient_post (http_client c) ''/verify-pin''
                               (JDict [(''pin'', JStr normalized_pin)]) of
                          None \<Rightarrow> None
                        | Some (Inl e, h) \<Rightarrow>
                            Some (Inl (if is_KraConnectError e then e
                                       else KraConnectError ''PIN verification failed''),
                                  c\<lparr>http_client := h, cache_manager := m1, rate_limiter := rl\<rparr>, w2)
                        | Some (Inr response_data, h) \<Rightarrow>
                            (case make_result normalized_pin response_data of
                               None \<Rightarrow>
                                 Some (Inl (KraConnectError ''PIN verification failed''),
                                       c\<lparr>http_client := h, cache_manager := m1, rate_limiter := rl\<rparr>, w2)
                             | Some result \<Rightarrow>
                                 (case CacheManager_set_w m1 cache_key result None w2 of
                                    None \<Rightarrow> None
                                  | Some (m2, w3) \<Rightarrow>
                                      Some (Inr result,
                                            c\<lparr>http_client := h, cache_manager := m2,
                                              rate_limiter := rl\<rparr>, w3)))))))"

section \<open>Properties\<close>

subsection \<open>Clock and refill\<close>

lemma time_time_mono:
  "time_time w = Some (t, w') \<Longrightarrow> monotone_clock w \<Longrightarrow> now w \<le> t \<and> monotone_clock w'"
  by (auto simp: time_time_def monotone_clock_def split: list.splits)

lemma time_time_now: "time_time w = Some (t, w') \<Longrightarrow> now w' = t"
  by (auto simp: time_time_def split: list.splits)

lemma time_sleep_now:
  "time_sleep d w = Inr w' \<Longrightarrow> now w' = now w + d \<and> 0 \<le> d \<and> monotone_clock w' = monotone_clock w"
  by (auto simp: time_sleep_def monotone_clock_def split: if_splits)

lemma refill_at_config [simp]: "tb_config (refill_at t s) = tb_config s"
  by (simp add: refill_at_def Let_def)

lemma refill_at_last_refill [simp]: "last_refill (refill_at t s) = t"
  by (simp add: refill_at_def Let_def)

lemma refill_rate_refill_at [simp]: "refill_rate (refill_at t s) = refill_rate s"
  by (simp add: refill_rate_def)

lemma refill_at_le_capacity: "tokens (refill_at t s) \<le> real_of_int (max_requests (tb_config s))"
  by (simp add: refill_at_def Let_def)

lemma refill_at_refill_at:
  assumes "t1 \<le> t2" and "0 \<le> refill_rate s"
  shows "refill_at t2 (refill_at t1 s) = refill_at t2 s"
proof -
  have "0 \<le> (t2 - t1) * refill_rate s"
    using assms by simp
  then have "min (min (tokens s + (t1 - last_refill s) * refill_rate s) c + (t2 - t1) * refill_rate s) c
      = min (tokens s + (t2 - last_refill s) * refill_rate s) c" for c
    by (simp add: min_def algebra_simps)
  then show ?thesis
    by (simp add: refill_at_def Let_def refill_rate_def)
qed

text \<open>
  Claim C7. With the limiter enabled, a non-blocking \<^verbatim>\<open>acquire\<close> that finds fewer
  tokens than requested after the refill (at the clock reading \<open>t\<close>) raises
  \<^verbatim>\<open>RateLimitExceededError\<close> with \<open>retry_after\<close> equal to the configured
  \<open>window_seconds\<close>, and the state it leaves is the refilled state: no token is taken.
\<close>

theorem nonblocking_acquire_raises:
  assumes "enabled (tb_config s)"
    and "time_time w = Some (start_time, w0)"
    and "time_time w0 = Some (t, w1)"
    and "tokens (refill_at t s) < real_of_int n"
  shows "acquire s n False timeout w
           = Some (Inl (RateLimitExceededError (window_seconds (tb_config s))), refill_at t s, w1)"
  using assms
  by (simp add: acquire_def acquire_loop.simps [of s n False timeout start_time w0]
      refill_tokens_def)

subsection \<open>The waiting loop of the token bucket\<close>

lemma acquire_loop_None:
  "time_time w = None \<Longrightarrow> acquire_loop s n block timeout start_time w = None"
  by (subst acquire_loop.simps) (simp add: refill_tokens_def)

lemma acquire_loop_unfold:
  assumes "time_time w = Some (t, w1)"
  shows "acquire_loop s n block timeout start_time w =
     (if tokens (refill_at t s) \<ge> real_of_int n then
        Some (Inr True, (refill_at t s)\<lparr>tokens := tokens (refill_at t s) - real_of_int n\<rparr>, w1)
      else if \<not> block then
        Some (Inl (RateLimitExceededError (window_seconds (tb_config s))), refill_at t s, w1)
      else
        (case timed_out timeout start_time w1 of
           None \<Rightarrow> None
         | Some (expired, w2) \<Rightarrow>
             if expired then Some (Inr False, refill_at t s, w2)
             else
               (case time_sleep (min ((real_of_int n - tokens (refill_at t s)) / refill_rate s) 1) w2 of
                  Inl e \<Rightarrow> Some (Inl e, refill_at t s, w2)
                | Inr w3 \<Rightarrow> acquire_loop (refill_at t s) n block timeout start_time w3)))"
  by (subst acquire_loop.simps) (auto simp: refill_tokens_def assms Let_def split: option.splits)

lemma refill_rate_nonneg:
  "RateLimitConfig_post_init (tb_config s) = Inr (tb_config s) \<Longrightarrow> 0 < refill_rate s"
  by (auto simp: RateLimitConfig_post_init_def refill_rate_def split: if_splits)

lemma timed_out_mono:
  "timed_out timeout start_time w = Some (b, w') \<Longrightarrow> monotone_clock w \<Longrightarrow>
     now w \<le> now w' \<and> monotone_clock w'"
  by (auto simp: timed_out_def split: option.splits dest: time_time_mono time_time_now)

lemma timed_out_True:
  "timed_out timeout start_time w = Some (True, w') \<Longrightarrow>
     \<exists>limit. timeout = Some limit \<and> limit \<le> now w' - start_time"
  by (auto simp: timed_out_def split: option.splits dest: time_time_now)

lemma acquire_loop_outcome:
  assumes "acquire_loop s n block timeout start_time w = Some (r, s', w')"
    and "monotone_clock w"
    and "0 < refill_rate s"
  shows "monotone_clock w' \<and> now w \<le> last_refill s' \<and> last_refill s' \<le> now w'
    \<and> ((r = Inr True \<and> real_of_int n \<le> tokens (refill_at (last_refill s') s)
          \<and> s' = (refill_at (last_refill s') s)
                 \<lparr>tokens := tokens (refill_at (last_refill s') s) - real_of_int n\<rparr>)
       \<or> (r = Inr False \<and> block \<and> s' = refill_at (last_refill s') s \<and> tokens s' < real_of_int n
          \<and> (\<exists>limit. timeout = Some limit \<and> limit \<le> now w' - start_time))
       \<or> (r = Inl (RateLimitExceededError (window_seconds (tb_config s))) \<and> \<not> block
          \<and> s' = refill_at (last_refill s') s \<and> tokens s' < real_of_int n))"
  using assms
proof (induction s n block timeout start_time w rule: acquire_loop.induct)
  case (1 s n block timeout start_time w)
  from "1.prems"(1) obtain t w1 where tt: "time_time w = Some (t, w1)"
    by (auto simp: acquire_loop.simps [of s n block timeout start_time w] refill_tokens_def
        split: option.splits)
  then have rt: "refill_tokens s w = Some (refill_at t s, w1)"
    by (simp add: refill_tokens_def)
  have t: "now w \<le> t" "monotone_clock w1" "now w1 = t"
    using tt "1.prems"(2) time_time_mono time_time_now by blast+
  let ?s1 = "refill_at t s"
  have "acquire_loop s n block timeout start_time w =
     (if tokens ?s1 \<ge> real_of_int n then
        Some (Inr True, ?s1\<lparr>tokens := tokens ?s1 - real_of_int n\<rparr>, w1)
      else if \<not> block then
        Some (Inl (RateLimitExceededError (window_seconds (tb_config ?s1))), ?s1, w1)
      else
        (case timed_out timeout start_time w1 of
           None \<Rightarrow> None
         | Some (expired, w2) \<Rightarrow>
             if expired then Some (Inr False, ?s1, w2)
             else
               (let wait_time = min ((real_of_int n - tokens ?s1) / refill_rate ?s1) 1
                in case time_sleep wait_time w2 of
                     Inl e \<Rightarrow> Some (Inl e, ?s1, w2)
                   | Inr w3 \<Rightarrow> acquire_loop ?s1 n block timeout start_time w3)))"
    by (subst acquire_loop.simps) (simp add: rt)
  with "1.prems"(1) have eq:
     "(if tokens ?s1 \<ge> real_of_int n then
        Some (Inr True, ?s1\<lparr>tokens := tokens ?s1 - real_of_int n\<rparr>, w1)
      else if \<not> block then
        Some (Inl (RateLimitExceededError (window_seconds (tb_config ?s1))), ?s1, w1)
      else
        (case timed_out timeout start_time w1 of
           None \<Rightarrow> None
         | Some (expired, w2) \<Rightarrow>
             if expired then Some (Inr False, ?s1, w2)
             else
               (let wait_time = min ((real_of_int n - tokens ?s1) / refill_rate ?s1) 1
                in case time_sleep wait_time w2 of
                     Inl e \<Rightarrow> Some (Inl e, ?s1, w2)
                   | Inr w3 \<Rightarrow> acquire_loop ?s1 n block timeout start_time w3))) = Some (r, s', w')"
    by simp
  show ?case
  proof (cases "real_of_int n \<le> tokens ?s1")
    case True
    then have "r = Inr True" "s' = ?s1\<lparr>tokens := tokens ?s1 - real_of_int n\<rparr>" "w' = w1"
      using eq by simp_all
    with True t show ?thesis by simp
  next
    case False
    show ?thesis
    proof (cases block)
      case nb: False
      then have "r = Inl (RateLimitExceededError (window_seconds (tb_config s)))" "s' = ?s1" "w' = w1"
        using eq False by simp_all
      with False nb t show ?thesis by simp
    next
      case blk: True
    from False blk eq obtain expired w2
      where to: "timed_out timeout start_time w1 = Some (expired, w2)"
      by (auto split: option.splits)
    have w2: "now w1 \<le> now w2" "monotone_clock w2"
      using timed_out_mono [OF to t(2)] by simp_all
    show ?thesis
    proof (cases expired)
      case True
      then have res: "r = Inr False" "s' = ?s1" "w' = w2"
        using eq False to blk by simp_all
      from timed_out_True [of timeout start_time w1 w2] to True
      have "\<exists>limit. timeout = Some limit \<and> limit \<le> now w2 - start_time" by simp
      with res False t w2 blk show ?thesis by simp
    next
      case nexp: False
      let ?wait = "min ((real_of_int n - tokens ?s1) / refill_rate ?s1) 1"
      have "0 \<le> ?wait"
        using False "1.prems"(3) by (simp add: min_def)
      then have "time_sleep ?wait w2 = Inr (w2\<lparr>now := now w2 + ?wait\<rparr>)"
        unfolding time_sleep_def by (simp only: not_less [symmetric] if_False)
      then obtain w3 where sl: "time_sleep ?wait w2 = Inr w3"
        by blast
      have w3: "now w3 = now w2 + ?wait" "monotone_clock w3"
        using time_sleep_now [OF sl] w2 by simp_all
      have rec: "acquire_loop ?s1 n block timeout start_time w3 = Some (r, s', w')"
        using eq False to nexp sl blk by (simp add: Let_def)
      have IH: "monotone_clock w' \<and> now w3 \<le> last_refill s' \<and> last_refill s' \<le> now w'
        \<and> ((r = Inr True \<and> real_of_int n \<le> tokens (refill_at (last_refill s') ?s1)
              \<and> s' = (refill_at (last_refill s') ?s1)
                     \<lparr>tokens := tokens (refill_at (last_refill s') ?s1) - real_of_int n\<rparr>)
           \<or> (r = Inr False \<and> block \<and> s' = refill_at (last_refill s') ?s1 \<and> tokens s' < real_of_int n
              \<and> (\<exists>limit. timeout = Some limit \<and> limit \<le> now w' - start_time))
           \<or> (r = Inl (RateLimitExceededError (window_seconds (tb_config ?s1))) \<and> \<not> block
              \<and> s' = refill_at (last_refill s') ?s1 \<and> tokens s' < real_of_int n))"
        using "1.IH" [OF rt refl _ _ to refl nexp refl sl rec w3(2)] False "1.prems"(3) blk
        by simp
      have le: "t \<le> last_refill s'"
        using IH w3 w2 t \<open>0 \<le> ?wait\<close> by linarith
      have comp: "refill_at (last_refill s') ?s1 = refill_at (last_refill s') s"
        using refill_at_refill_at [OF le] "1.prems"(3) by simp
      show ?thesis
        using IH t le unfolding comp by auto
    qed
    qed
  qed
qed




subsection \<open>A blocking acquire with a timeout\<close>












subsection \<open>State bounds kept by \<^verbatim>\<open>acquire\<close>\<close>

lemma acquire_loop_bounds:
  assumes "acquire_loop s n block timeout start_time w = Some (r, s', w')"
  shows "tb_config s' = tb_config s
       \<and> (if r = Inr True
          then 0 \<le> tokens s' \<and> tokens s' + real_of_int n \<le> real_of_int (max_requests (tb_config s))
          else tokens s' \<le> real_of_int (max_requests (tb_config s)))"
  using assms
proof (induction s n block timeout start_time w rule: acquire_loop.induct)
  case (1 s n block timeout start_time w)
  from "1.prems" obtain t w1 where tt: "time_time w = Some (t, w1)"
    by (auto simp: acquire_loop.simps [of s n block timeout start_time w] refill_tokens_def
        split: option.splits)
  then have rt: "refill_tokens s w = Some (refill_at t s, w1)"
    by (simp add: refill_tokens_def)
  let ?s1 = "refill_at t s"
  have cap: "tokens ?s1 \<le> real_of_int (max_requests (tb_config s))"
    by (rule refill_at_le_capacity)
  from "1.prems" have eq:
    "(if tokens ?s1 \<ge> real_of_int n then
        Some (Inr True, ?s1\<lparr>tokens := tokens ?s1 - real_of_int n\<rparr>, w1)
      else if \<not> block then
        Some (Inl (RateLimitExceededError (window_seconds (tb_config s))), ?s1, w1)
      else
        (case timed_out timeout start_time w1 of
           None \<Rightarrow> None
         | Some (expired, w2) \<Rightarrow>
             if expired then Some (Inr False, ?s1, w2)
             else
               (case time_sleep (min ((real_of_int n - tokens ?s1) / refill_rate s) 1) w2 of
                  Inl e \<Rightarrow> Some (Inl e, ?s1, w2)
                | Inr w3 \<Rightarrow> acquire_loop ?s1 n block timeout start_time w3))) = Some (r, s', w')"
    unfolding acquire_loop_unfold [OF tt] .
  show ?case
  proof (cases "real_of_int n \<le> tokens ?s1")
    case True
    then show ?thesis
      using eq cap by auto
  next
    case False
    show ?thesis
    proof (cases "block \<and> (\<exists>w2. timed_out timeout start_time w1 = Some (False, w2)
        \<and> (\<exists>w3. time_sleep (min ((real_of_int n - tokens ?s1) / refill_rate ?s1) 1) w2 = Inr w3))")
      case True
      then obtain w2 w3 where to: "timed_out timeout start_time w1 = Some (False, w2)"
        and sl: "time_sleep (min ((real_of_int n - tokens ?s1) / refill_rate ?s1) 1) w2 = Inr w3"
        and blk: block
        by blast
      have rec: "acquire_loop ?s1 n block timeout start_time w3 = Some (r, s', w')"
        using eq False to sl blk by simp
      from "1.IH" [OF rt refl False _ to refl _ refl sl rec] blk
      show ?thesis by (auto split: if_splits)
    next
      case nrec: False
      then have "s' = ?s1 \<and> r \<noteq> Inr True"
        using eq False
        by (auto split: option.splits if_splits sum.splits)
      then show ?thesis using cap by simp
    qed
  qed
qed

lemma acquire_bounds:
  assumes "acquire s n block timeout w = Some (r, s', w')" and "enabled (tb_config s)"
  shows "tb_config s' = tb_config s
       \<and> (if r = Inr True
          then 0 \<le> tokens s' \<and> tokens s' + real_of_int n \<le> real_of_int (max_requests (tb_config s))
          else tokens s' \<le> real_of_int (max_requests (tb_config s)))"
  using assms acquire_loop_bounds
  by (auto simp: acquire_def split: option.splits)

lemma acquire_config:
  assumes "acquire s n block timeout w = Some (r, s', w')"
  shows "tb_config s' = tb_config s"
  using assms acquire_loop_bounds
  by (auto simp: acquire_def split: option.splits if_splits)

lemma refill_at_inv:
  assumes "0 \<le> tokens s" "last_refill s \<le> t" "0 < refill_rate s" "0 \<le> max_requests (tb_config s)"
  shows "0 \<le> tokens (refill_at t s)"
  using assms by (simp add: refill_at_def Let_def)

lemma acquire_inv:
  assumes "acquire s n block timeout w = Some (r, s', w')"
    and "tb_inv s w" and "0 \<le> n"
    and "RateLimitConfig_post_init (tb_config s) = Inr (tb_config s)"
  shows "tb_inv s' w'"
proof (cases "enabled (tb_config s)")
  case False
  then show ?thesis using assms by (simp add: acquire_def)
next
  case True
  have rate: "0 < refill_rate s" using assms(4) by (rule refill_rate_nonneg)
  have cap: "0 \<le> max_requests (tb_config s)"
    using assms(4) by (auto simp: RateLimitConfig_post_init_def split: if_splits)
  from True assms(1) obtain start_time w0 where tt: "time_time w = Some (start_time, w0)"
    and loop: "acquire_loop s n block timeout start_time w0 = Some (r, s', w')"
    by (auto simp: acquire_def split: option.splits)
  have w0: "now w \<le> now w0" "monotone_clock w0"
    using time_time_mono [OF tt] time_time_now [OF tt] assms(2) by (simp_all add: tb_inv_def)
  let ?T = "last_refill s'"
  from acquire_loop_outcome [OF loop w0(2) rate]
  have out: "monotone_clock w'" "now w0 \<le> ?T" "?T \<le> now w'"
    "s' = (refill_at ?T s)\<lparr>tokens := tokens (refill_at ?T s) - real_of_int n\<rparr>
        \<and> real_of_int n \<le> tokens (refill_at ?T s)
     \<or> s' = refill_at ?T s"
    by auto
  have "last_refill s \<le> ?T"
    using out(2) w0(1) assms(2) by (simp add: tb_inv_def)
  then have lo: "0 \<le> tokens (refill_at ?T s)"
    using refill_at_inv [OF _ _ rate cap] assms(2) by (simp add: tb_inv_def)
  have hi: "tokens (refill_at ?T s) \<le> real_of_int (max_requests (tb_config s))"
    by (rule refill_at_le_capacity)
  have cfg: "tb_config s' = tb_config s"
    using acquire_config [OF assms(1)] .
  from out(4) show ?thesis
  proof
    assume g: "s' = (refill_at ?T s)\<lparr>tokens := tokens (refill_at ?T s) - real_of_int n\<rparr>
        \<and> real_of_int n \<le> tokens (refill_at ?T s)"
    then have "tokens s' = tokens (refill_at ?T s) - real_of_int n"
      by (metis token_bucket.select_convs(2) token_bucket.surjective token_bucket.update_convs(2))
    then show ?thesis
      using g lo hi out(1,3) assms(3) cfg by (simp add: tb_inv_def)
  next
    assume "s' = refill_at ?T s"
    then have "tokens s' = tokens (refill_at ?T s)" by simp
    then show ?thesis
      using lo hi out(1,3) cfg by (simp add: tb_inv_def)
  qed
qed

subsection \<open>Sequences of operations on a token bucket\<close>

lemma valid_capacity:
  "RateLimitConfig_post_init c = Inr c \<Longrightarrow> 0 < max_requests c \<and> 0 < window_seconds c"
  by (auto simp: RateLimitConfig_post_init_def split: if_splits)

lemma tb_step_config:
  "tb_step operation s w = Some (out, s', w') \<Longrightarrow> tb_config s' = tb_config s"
  by (cases operation)
    (auto simp: get_available_tokens_def refill_tokens_def reset_def
      split: option.splits dest: acquire_config)

lemma tb_step_bounds:
  assumes "tb_step operation s w = Some (out, s', w')"
  shows "(operation = GetAvailableTokens \<longrightarrow> tokens s' \<le> real_of_int (max_requests (tb_config s)))
       \<and> (enabled (tb_config s) \<and> (\<exists>n block timeout. operation = Acquire n block timeout)
            \<and> out = Acquired (Inr True) \<longrightarrow> 0 \<le> tokens s')"
proof (cases operation)
  case (Acquire n block timeout)
  then show ?thesis
    using assms acquire_bounds [of s n block timeout w]
    by (auto split: option.splits)
next
  case GetAvailableTokens
  then show ?thesis
    using assms refill_at_le_capacity
    by (auto simp: get_available_tokens_def refill_tokens_def split: option.splits)
next
  case Reset
  then show ?thesis
    using assms by (auto split: option.splits)
qed

lemma tb_step_inv:
  assumes "tb_step operation s w = Some (out, s', w')"
    and "tb_inv s w" and "nonneg_cost operation"
    and "RateLimitConfig_post_init (tb_config s) = Inr (tb_config s)"
  shows "tb_inv s' w'"
proof (cases operation)
  case (Acquire n block timeout)
  then show ?thesis
    using assms acquire_inv [of s n block timeout w]
    by (auto split: option.splits)
next
  case GetAvailableTokens
  from assms(1) GetAvailableTokens obtain t where tt: "time_time w = Some (t, w')"
    and s': "s' = refill_at t s"
    by (auto simp: get_available_tokens_def refill_tokens_def split: option.splits)
  have t: "now w \<le> t" "monotone_clock w'" "now w' = t"
    using time_time_mono [OF tt] time_time_now [OF tt] assms(2) by (simp_all add: tb_inv_def)
  have "0 \<le> tokens (refill_at t s)"
    using refill_at_inv [of s t] refill_rate_nonneg [OF assms(4)] valid_capacity [OF assms(4)]
      assms(2) t(1)
    by (simp add: tb_inv_def)
  then show ?thesis
    using s' t refill_at_le_capacity [of t s] by (simp add: tb_inv_def)
next
  case Reset
  from assms(1) Reset obtain t where tt: "time_time w = Some (t, w')"
    and s': "s' = s\<lparr>tokens := real_of_int (max_requests (tb_config s)), last_refill := t\<rparr>"
    by (auto simp: reset_def split: option.splits)
  have t: "now w \<le> t" "monotone_clock w'" "now w' = t"
    using time_time_mono [OF tt] time_time_now [OF tt] assms(2) by (simp_all add: tb_inv_def)
  show ?thesis
    using s' t valid_capacity [OF assms(4)] by (simp add: tb_inv_def)
qed

lemma tb_run_bounds:
  "(operation, out, st, wd) \<in> set (tb_run ops s w) \<Longrightarrow>
     tb_config st = tb_config s
     \<and> (operation = GetAvailableTokens \<longrightarrow> tokens st \<le> real_of_int (max_requests (tb_config st)))
     \<and> (enabled (tb_config st) \<and> (\<exists>n block timeout. operation = Acquire n block timeout)
            \<and> out = Acquired (Inr True) \<longrightarrow> 0 \<le> tokens st)"
proof (induction ops arbitrary: s w)
  case Nil
  then show ?case by simp
next
  case (Cons a ops)
  show ?case
  proof (cases "tb_step a s w")
    case None
    with Cons.prems show ?thesis by simp
  next
    case (Some p)
    obtain out1 s1 w1 where p: "p = (out1, s1, w1)" by (cases p)
    have cfg: "tb_config s1 = tb_config s"
      using tb_step_config Some p by blast
    from Cons.prems Some p
    consider "(operation, out, st, wd) = (a, out1, s1, w1)"
      | "(operation, out, st, wd) \<in> set (tb_run ops s1 w1)"
      by auto
    then show ?thesis
    proof cases
      case 1
      then show ?thesis
        using tb_step_bounds [of a s w out1 s1 w1] Some p cfg by auto
    next
      case 2
      then show ?thesis
        using Cons.IH [of s1 w1] cfg by auto
    qed
  qed
qed

lemma tb_run_inv:
  "(operation, out, st, wd) \<in> set (tb_run ops s w) \<Longrightarrow> tb_inv s w \<Longrightarrow>
     list_all nonneg_cost ops \<Longrightarrow> RateLimitConfig_post_init (tb_config s) = Inr (tb_config s) \<Longrightarrow>
     tb_inv st wd"
proof (induction ops arbitrary: s w)
  case Nil
  then show ?case by simp
next
  case (Cons a ops)
  show ?case
  proof (cases "tb_step a s w")
    case None
    with Cons.prems show ?thesis by simp
  next
    case (Some p)
    obtain out1 s1 w1 where p: "p = (out1, s1, w1)" by (cases p)
    have cfg: "tb_config s1 = tb_config s"
      using tb_step_config Some p by blast
    have inv1: "tb_inv s1 w1"
      using tb_step_inv [of a s w out1 s1 w1] Some p Cons.prems by simp
    from Cons.prems Some p
    consider "(operation, out, st, wd) = (a, out1, s1, w1)"
      | "(operation, out, st, wd) \<in> set (tb_run ops s1 w1)"
      by auto
    then show ?thesis
    proof cases
      case 1
      then show ?thesis using inv1 by simp
    next
      case 2
      then show ?thesis
        using Cons.IH [of s1 w1] inv1 cfg Cons.prems by simp
    qed
  qed
qed

text \<open>
  Claim C5. In every sequence of operations on a token bucket, from any state and on any clock:
  after a refill the tokens do not exceed the capacity, and after a granted acquire of an
  enabled limiter they are not negative. When moreover the configuration is valid, the
  clock does not run backwards, the first state has \<open>0 \<le> tokens \<le> capacity\<close> and no
  request is for a negative number of tokens, \<open>0 \<le> tokens \<le> capacity\<close> holds after every
  operation.
\<close>

theorem token_bucket_invariant:
  "\<forall>(operation, out, st, wd) \<in> set (tb_run ops s w).
      (operation = GetAvailableTokens \<longrightarrow> tokens st \<le> real_of_int (max_requests (tb_config st)))
    \<and> (enabled (tb_config st) \<and> (\<exists>n block timeout. operation = Acquire n block timeout)
          \<and> out = Acquired (Inr True) \<longrightarrow> 0 \<le> tokens st)
    \<and> (RateLimitConfig_post_init (tb_config s) = Inr (tb_config s)
          \<and> 0 \<le> tokens s \<and> tokens s \<le> real_of_int (max_requests (tb_config s))
          \<and> last_refill s \<le> now w \<and> monotone_clock w \<and> list_all nonneg_cost ops
        \<longrightarrow> 0 \<le> tokens st \<and> tokens st \<le> real_of_int (max_requests (tb_config st)))"
proof (clarify, intro conjI impI)
  fix operation out st wd
  assume mem: "(operation, out, st, wd) \<in> set (tb_run ops s w)"
  note b = tb_run_bounds [OF mem]
  {
    assume "operation = GetAvailableTokens"
    then show "tokens st \<le> real_of_int (max_requests (tb_config st))"
      using b by auto
  }
  {
    assume "enabled (tb_config st) \<and> (\<exists>n block timeout. operation = Acquire n block timeout)
          \<and> out = Acquired (Inr True)"
    then show "0 \<le> tokens st"
      using b by auto
  }
  {
    assume h: "RateLimitConfig_post_init (tb_config s) = Inr (tb_config s)
          \<and> 0 \<le> tokens s \<and> tokens s \<le> real_of_int (max_requests (tb_config s))
          \<and> last_refill s \<le> now w \<and> monotone_clock w \<and> list_all nonneg_cost ops"
    then have "tb_inv st wd"
      using tb_run_inv [OF mem] by (simp add: tb_inv_def)
    then show "0 \<le> tokens st" "tokens st \<le> real_of_int (max_requests (tb_config st))"
      by (simp_all add: tb_inv_def)
  }
qed

subsection \<open>Sliding window\<close>

lemma popleft_old_subset: "set (popleft_old cutoff rs) \<subseteq> set rs"
  by (induction rs) auto

lemma popleft_old_length: "length (popleft_old cutoff rs) \<le> length rs"
  by (induction rs) auto

lemma popleft_old_sorted: "sorted rs \<Longrightarrow> sorted (popleft_old cutoff rs)"
  by (induction rs) auto

lemma popleft_old_cutoff: "sorted rs \<Longrightarrow> r \<in> set (popleft_old cutoff rs) \<Longrightarrow> cutoff \<le> r"
  by (induction rs) (auto split: if_splits)

lemma clean_at_config [simp]: "sw_config (clean_at t s) = sw_config s"
  by (simp add: clean_at_def Let_def)

lemma clean_at_window:
  assumes "sorted (requests s)" and "\<forall>r \<in> set (requests s). r \<le> t"
    and "r \<in> set (requests (clean_at t s))"
  shows "t - real_of_int (window_seconds (sw_config s)) \<le> r \<and> r \<le> t"
  using assms popleft_old_cutoff [of "requests s" r] popleft_old_subset [of _ "requests s"]
  by (auto simp: clean_at_def Let_def)

lemma clean_at_inv:
  assumes "sw_inv s w" and "time_time w = Some (t, w')"
  shows "sw_inv (clean_at t s) w'"
proof -
  have t: "now w \<le> t" "monotone_clock w'" "now w' = t"
    using time_time_mono [OF assms(2)] time_time_now [OF assms(2)] assms(1)
    by (simp_all add: sw_inv_def)
  have "int (length (popleft_old c (requests s))) \<le> max_requests (sw_config s)" for c
    using popleft_old_length [of c "requests s"] assms(1) by (simp add: sw_inv_def)
  moreover have "\<forall>r \<in> set (popleft_old c (requests s)). r \<le> t" for c
    using popleft_old_subset [of c "requests s"] assms(1) t(1) by (fastforce simp: sw_inv_def)
  ultimately show ?thesis
    using assms(1) t popleft_old_sorted [of "requests s"]
    by (simp add: sw_inv_def clean_at_def Let_def)
qed

lemma sw_wait_time_mono:
  "sw_wait_time s w = Some (d, w') \<Longrightarrow> monotone_clock w \<Longrightarrow>
     now w \<le> now w' \<and> monotone_clock w' \<and> 0 \<le> d"
  by (auto simp: sw_wait_time_def Let_def split: list.splits option.splits
      dest: time_time_mono time_time_now)

lemma sw_acquire_loop_unfold:
  assumes "time_time w = Some (t, w1)"
  shows "sw_acquire_loop s block timeout start_time w =
     (if int (length (requests (clean_at t s))) < max_requests (sw_config s) then
        (case time_time w1 of
           None \<Rightarrow> None
         | Some (t', w2) \<Rightarrow>
             Some (Inr True, (clean_at t s)\<lparr>requests := requests (clean_at t s) @ [t']\<rparr>, w2))
      else if \<not> block then
        Some (Inl (RateLimitExceededError (window_seconds (sw_config s))), clean_at t s, w1)
      else
        (case timed_out timeout start_time w1 of
           None \<Rightarrow> None
         | Some (expired, w2) \<Rightarrow>
             if expired then Some (Inr False, clean_at t s, w2)
             else
               (case sw_wait_time (clean_at t s) w2 of
                  None \<Rightarrow> None
                | Some (wait_time, w3) \<Rightarrow>
                    (case time_sleep wait_time w3 of
                       Inl e \<Rightarrow> Some (Inl e, clean_at t s, w3)
                     | Inr w4 \<Rightarrow> sw_acquire_loop (clean_at t s) block timeout start_time w4))))"
  by (subst sw_acquire_loop.simps)
    (auto simp: clean_old_requests_def assms split: option.splits)

lemma sw_acquire_loop_inv:
  assumes "sw_acquire_loop s block timeout start_time w = Some (r, s', w')"
    and "sw_inv s w"
  shows "sw_inv s' w' \<and> sw_config s' = sw_config s"
  using assms
proof (induction s block timeout start_time w rule: sw_acquire_loop.induct)
  case (1 s block timeout start_time w)
  from "1.prems"(1) obtain t w1 where tt: "time_time w = Some (t, w1)"
    by (auto simp: sw_acquire_loop.simps [of s block timeout start_time w] clean_old_requests_def
        split: option.splits)
  then have cl: "clean_old_requests s w = Some (clean_at t s, w1)"
    by (simp add: clean_old_requests_def)
  let ?s1 = "clean_at t s"
  have inv1: "sw_inv ?s1 w1"
    using clean_at_inv [OF "1.prems"(2) tt] .
  note eq = "1.prems"(1) [unfolded sw_acquire_loop_unfold [OF tt]]
  show ?case
  proof (cases "int (length (requests ?s1)) < max_requests (sw_config s)")
    case True
    with eq obtain t' where tt': "time_time w1 = Some (t', w')"
      and s': "s' = ?s1\<lparr>requests := requests ?s1 @ [t']\<rparr>"
      by (auto split: option.splits)
    have t': "now w1 \<le> t'" "monotone_clock w'" "now w' = t'"
      using time_time_mono [OF tt'] time_time_now [OF tt'] inv1 by (simp_all add: sw_inv_def)
    have "sorted (requests ?s1 @ [t'])"
      using inv1 t'(1) by (auto simp: sw_inv_def sorted_append)
    moreover have "\<forall>r \<in> set (requests ?s1 @ [t']). r \<le> t'"
      using inv1 t'(1) by (auto simp: sw_inv_def)
    ultimately show ?thesis
      using s' t' True by (simp add: sw_inv_def)
  next
    case False
    show ?thesis
    proof (cases "block \<and> (\<exists>w2 wait_time w3 w4. timed_out timeout start_time w1 = Some (False, w2)
        \<and> sw_wait_time ?s1 w2 = Some (wait_time, w3) \<and> time_sleep wait_time w3 = Inr w4)")
      case True
      then obtain w2 wait_time w3 w4 where to: "timed_out timeout start_time w1 = Some (False, w2)"
        and wt: "sw_wait_time ?s1 w2 = Some (wait_time, w3)"
        and sl: "time_sleep wait_time w3 = Inr w4" and blk: block
        by blast
      have rec: "sw_acquire_loop ?s1 block timeout start_time w4 = Some (r, s', w')"
        using eq False to wt sl blk by simp
      have w2: "now w1 \<le> now w2" "monotone_clock w2"
        using timed_out_mono [OF to] inv1 by (simp_all add: sw_inv_def)
      have w3: "now w2 \<le> now w3" "monotone_clock w3" "0 \<le> wait_time"
        using sw_wait_time_mono [OF wt w2(2)] by simp_all
      have w4: "now w4 = now w3 + wait_time" "monotone_clock w4"
        using time_sleep_now [OF sl] w3 by simp_all
      have inv4: "sw_inv ?s1 w4"
        using inv1 w2 w3 w4 by (fastforce simp: sw_inv_def)
      from "1.IH" [OF cl refl _ _ to refl _ wt refl sl rec inv4] False blk
      show ?thesis by simp
    next
      case nrec: False
      then have "s' = ?s1 \<and> now w1 \<le> now w' \<and> monotone_clock w'"
        using eq False inv1
        by (auto simp: sw_inv_def split: option.splits if_splits sum.splits
            dest!: timed_out_mono sw_wait_time_mono)
      then show ?thesis
        using inv1 by (fastforce simp: sw_inv_def)
    qed
  qed
qed

lemma sw_step_inv:
  assumes "sw_step operation s w = Some (out, s', w')" and "sw_inv s w"
  shows "sw_inv s' w' \<and> sw_config s' = sw_config s
       \<and> (operation = GetRequestCount \<longrightarrow>
            (\<forall>r \<in> set (requests s'). now w' - real_of_int (window_seconds (sw_config s)) \<le> r))"
proof (cases operation)
  case (SwAcquire block timeout)
  show ?thesis
  proof (cases "enabled (sw_config s)")
    case False
    then show ?thesis
      using assms SwAcquire by (auto simp: sw_acquire_def)
  next
    case True
    with assms(1) SwAcquire obtain r start_time w0 where tt: "time_time w = Some (start_time, w0)"
      and loop: "sw_acquire_loop s block timeout start_time w0 = Some (r, s', w')"
      by (auto simp: sw_acquire_def split: option.splits)
    have "sw_inv s w0"
      using time_time_mono [OF tt] time_time_now [OF tt] assms(2) by (fastforce simp: sw_inv_def)
    from sw_acquire_loop_inv [OF loop this] SwAcquire show ?thesis by simp
  qed
next
  case GetRequestCount
  with assms(1) obtain t where tt: "time_time w = Some (t, w')" and s': "s' = clean_at t s"
    by (auto simp: get_request_count_def clean_old_requests_def split: option.splits)
  have "now w \<le> t" "now w' = t"
    using time_time_mono [OF tt] time_time_now [OF tt] assms(2) by (simp_all add: sw_inv_def)
  then have "\<forall>r \<in> set (requests s). r \<le> t"
    using assms(2) by (fastforce simp: sw_inv_def)
  then have "\<forall>r \<in> set (requests s'). now w' - real_of_int (window_seconds (sw_config s)) \<le> r"
    using clean_at_window [of s t] assms(2) s' \<open>now w' = t\<close> by (simp add: sw_inv_def)
  then show ?thesis
    using clean_at_inv [OF assms(2) tt] s' by simp
next
  case SwReset
  then show ?thesis
    using assms by (auto simp: sw_reset_def sw_inv_def)
qed

lemma sw_run_inv:
  "(operation, out, st, wd) \<in> set (sw_run ops s w) \<Longrightarrow> sw_inv s w \<Longrightarrow>
     sw_inv st wd \<and> sw_config st = sw_config s
     \<and> (operation = GetRequestCount \<longrightarrow>
          (\<forall>r \<in> set (requests st). now wd - real_of_int (window_seconds (sw_config s)) \<le> r))"
proof (induction ops arbitrary: s w)
  case Nil
  then show ?case by simp
next
  case (Cons a ops)
  show ?case
  proof (cases "sw_step a s w")
    case None
    with Cons.prems show ?thesis by simp
  next
    case (Some p)
    obtain out1 s1 w1 where p: "p = (out1, s1, w1)" by (cases p)
    note step = sw_step_inv [OF Some [unfolded p] Cons.prems(2)]
    from Cons.prems Some p
    consider "(operation, out, st, wd) = (a, out1, s1, w1)"
      | "(operation, out, st, wd) \<in> set (sw_run ops s1 w1)"
      by auto
    then show ?thesis
    proof cases
      case 1
      then show ?thesis using step by auto
    next
      case 2
      then show ?thesis
        using Cons.IH [of s1 w1] step by auto
    qed
  qed
qed

text \<open>
  Claim C6. In every sequence of operations on a sliding window built with a valid
  configuration, on a clock that does not run backwards: after every operation, a trim at
  any later time \<open>t\<close> leaves only timestamps in \<open>[t - window_seconds, t]\<close>; after
  \<^verbatim>\<open>get_request_count\<close>, which ends with the trim, the retained timestamps lie in
  \<open>[now - window_seconds, now]\<close>; and the number of retained timestamps never exceeds
  \<open>max_requests\<close>, in particular after a granted acquire.
\<close>

theorem sliding_window_invariant:
  assumes "RateLimitConfig_post_init config = Inr config" and "monotone_clock w"
  shows "\<forall>(operation, out, st, wd) \<in> set (sw_run ops (SlidingWindowRateLimiter_init config) w).
      (\<forall>t \<ge> now wd. \<forall>r \<in> set (requests (clean_at t st)).
          t - real_of_int (window_seconds config) \<le> r \<and> r \<le> t)
    \<and> (operation = GetRequestCount \<longrightarrow>
          (\<forall>r \<in> set (requests st). now wd - real_of_int (window_seconds config) \<le> r \<and> r \<le> now wd))
    \<and> int (length (requests st)) \<le> max_requests config"
proof (clarify, intro conjI allI impI ballI)
  fix operation out st wd
  assume mem: "(operation, out, st, wd) \<in> set (sw_run ops (SlidingWindowRateLimiter_init config) w)"
  have "sw_inv (SlidingWindowRateLimiter_init config) w"
    using assms valid_capacity [OF assms(1)]
    by (simp add: sw_inv_def SlidingWindowRateLimiter_init_def)
  from sw_run_inv [OF mem this]
  have inv: "sw_inv st wd" and cfg: "sw_config st = config"
    and cnt: "operation = GetRequestCount \<longrightarrow>
          (\<forall>r \<in> set (requests st). now wd - real_of_int (window_seconds config) \<le> r)"
    by (simp_all add: SlidingWindowRateLimiter_init_def)
  show "int (length (requests st)) \<le> max_requests config"
    using inv cfg by (simp add: sw_inv_def)
  {
    fix r assume "operation = GetRequestCount" "r \<in> set (requests st)"
    then show "now wd - real_of_int (window_seconds config) \<le> r" "r \<le> now wd"
      using cnt inv by (simp_all add: sw_inv_def)
  }
  {
    fix t r assume t: "now wd \<le> t" and r: "r \<in> set (requests (clean_at t st))"
    have "\<forall>r \<in> set (requests st). r \<le> t"
      using inv t by (fastforce simp: sw_inv_def)
    then show "t - real_of_int (window_seconds config) \<le> r" "r \<le> t"
      using clean_at_window [of st t r] inv r cfg by (simp_all add: sw_inv_def)
  }
qed

subsection \<open>The rate limiters at concrete inputs\<close>

lemmas tb_eval = acquire_def acquire_loop.simps refill_tokens_def refill_at_def refill_rate_def
  time_time_def timed_out_def time_sleep_def Let_def

theorem nonblocking_acquire_raises_witness:
  "enabled (tb_config \<lparr>tb_config = \<lparr>max_requests = 2, window_seconds = 1, enabled = True\<rparr>,
                       tokens = 0, last_refill = 0\<rparr>)
   \<and> time_time \<lparr>now = 0, lags = [0, 1 / 4]\<rparr> = Some (0, \<lparr>now = 0, lags = [1 / 4]\<rparr>)
   \<and> time_time \<lparr>now = 0, lags = [1 / 4]\<rparr> = Some (1 / 4, \<lparr>now = 1 / 4, lags = []\<rparr>)
   \<and> refill_at (1 / 4) \<lparr>tb_config = \<lparr>max_requests = 2, window_seconds = 1, enabled = True\<rparr>,
                          tokens = 0, last_refill = 0\<rparr>
       = \<lparr>tb_config = \<lparr>max_requests = 2, window_seconds = 1, enabled = True\<rparr>,
          tokens = 1 / 2, last_refill = 1 / 4\<rparr>
   \<and> acquire \<lparr>tb_config = \<lparr>max_requests = 2, window_seconds = 1, enabled = True\<rparr>,
               tokens = 0, last_refill = 0\<rparr> 1 False None \<lparr>now = 0, lags = [0, 1 / 4]\<rparr>
       = Some (Inl (RateLimitExceededError 1),
               \<lparr>tb_config = \<lparr>max_requests = 2, window_seconds = 1, enabled = True\<rparr>,
                tokens = 1 / 2, last_refill = 1 / 4\<rparr>, \<lparr>now = 1 / 4, lags = []\<rparr>)"
proof -
  let ?c = "\<lparr>max_requests = 2, window_seconds = 1, enabled = True\<rparr>"
  let ?s = "\<lparr>tb_config = ?c, tokens = 0, last_refill = 0\<rparr>"
  let ?s1 = "\<lparr>tb_config = ?c, tokens = 1 / 2, last_refill = 1 / 4\<rparr>"
  have h1: "enabled (tb_config ?s)" by simp
  have h2: "time_time \<lparr>now = 0, lags = [0, 1 / 4]\<rparr> = Some (0, \<lparr>now = 0, lags = [1 / 4]\<rparr>)"
    by (simp add: time_time_def)
  have h3: "time_time \<lparr>now = 0, lags = [1 / 4]\<rparr> = Some (1 / 4, \<lparr>now = 1 / 4, lags = []\<rparr>)"
    by (simp add: time_time_def)
  have r: "refill_at (1 / 4) ?s = ?s1"
    by (simp add: refill_at_def refill_rate_def)
  have h4: "tokens (refill_at (1 / 4) ?s) < real_of_int 1"
    unfolding r by simp
  from nonblocking_acquire_raises [OF h1 h2 h3 h4, of None] h1 h2 h3 r
  show ?thesis by simp
qed


text \<open>
  The timeout is checked only before a sleep, so a call may still return \<open>True\<close> after
  its timeout has elapsed: asked for one token with a timeout of 0.25 seconds, the empty bucket
  sleeps 0.5 seconds after the check and grants the token 0.5 seconds after the start.
\<close>

lemma acquire_grants_after_timeout:
  "acquire \<lparr>tb_config = \<lparr>max_requests = 2, window_seconds = 1, enabled = True\<rparr>,
             tokens = 0, last_refill = 0\<rparr> 1 True (Some (1 / 4)) \<lparr>now = 0, lags = [0, 0, 0, 0]\<rparr>
     = Some (Inr True,
             \<lparr>tb_config = \<lparr>max_requests = 2, window_seconds = 1, enabled = True\<rparr>,
              tokens = 0, last_refill = 1 / 2\<rparr>, \<lparr>now = 1 / 2, lags = []\<rparr>)"
  by (simp add: tb_eval)



theorem token_bucket_invariant_witness:
  "RateLimitConfig_post_init \<lparr>max_requests = 2, window_seconds = 1, enabled = True\<rparr>
       = Inr \<lparr>max_requests = 2, window_seconds = 1, enabled = True\<rparr>
   \<and> monotone_clock \<lparr>now = 0, lags = [0, 0, 0, 0, 1, 0]\<rparr>
   \<and> list_all nonneg_cost [Acquire 1 True None, Acquire 2 False None, GetAvailableTokens, Reset]
   \<and> tb_run [Acquire 1 True None, Acquire 2 False None, GetAvailableTokens, Reset]
        \<lparr>tb_config = \<lparr>max_requests = 2, window_seconds = 1, enabled = True\<rparr>,
         tokens = 2, last_refill = 0\<rparr> \<lparr>now = 0, lags = [0, 0, 0, 0, 1, 0]\<rparr>
      = [(Acquire 1 True None, Acquired (Inr True),
          \<lparr>tb_config = \<lparr>max_requests = 2, window_seconds = 1, enabled = True\<rparr>,
           tokens = 1, last_refill = 0\<rparr>, \<lparr>now = 0, lags = [0, 0, 1, 0]\<rparr>),
         (Acquire 2 False None, Acquired (Inl (RateLimitExceededError 1)),
          \<lparr>tb_config = \<lparr>max_requests = 2, window_seconds = 1, enabled = True\<rparr>,
           tokens = 1, last_refill = 0\<rparr>, \<lparr>now = 0, lags = [1, 0]\<rparr>),
         (GetAvailableTokens, Available 2,
          \<lparr>tb_config = \<lparr>max_requests = 2, window_seconds = 1, enabled = True\<rparr>,
           tokens = 2, last_refill = 1\<rparr>, \<lparr>now = 1, lags = [0]\<rparr>),
         (Reset, WasReset,
          \<lparr>tb_config = \<lparr>max_requests = 2, window_seconds = 1, enabled = True\<rparr>,
           tokens = 2, last_refill = 1\<rparr>, \<lparr>now = 1, lags = []\<rparr>)]
   \<and> list_all (\<lambda>(operation, out, st, wd).
          0 \<le> tokens st \<and> tokens st \<le> real_of_int (max_requests (tb_config st)))
        (tb_run [Acquire 1 True None, Acquire 2 False None, GetAvailableTokens, Reset]
           \<lparr>tb_config = \<lparr>max_requests = 2, window_seconds = 1, enabled = True\<rparr>,
            tokens = 2, last_refill = 0\<rparr> \<lparr>now = 0, lags = [0, 0, 0, 0, 1, 0]\<rparr>)"
proof -
  let ?c = "\<lparr>max_requests = 2, window_seconds = 1, enabled = True\<rparr>"
  let ?s = "\<lparr>tb_config = ?c, tokens = 2, last_refill = 0\<rparr>"
  let ?w = "\<lparr>now = 0, lags = [0, 0, 0, 0, 1, 0]\<rparr>"
  let ?ops = "[Acquire 1 True None, Acquire 2 False None, GetAvailableTokens, Reset]"
  have h1: "RateLimitConfig_post_init ?c = Inr ?c"
    by (simp add: RateLimitConfig_post_init_def)
  have h2: "monotone_clock ?w"
    by (simp add: monotone_clock_def)
  have h3: "list_all nonneg_cost ?ops"
    by simp
  have h: "RateLimitConfig_post_init (tb_config ?s) = Inr (tb_config ?s)
          \<and> 0 \<le> tokens ?s \<and> tokens ?s \<le> real_of_int (max_requests (tb_config ?s))
          \<and> last_refill ?s \<le> now ?w \<and> monotone_clock ?w \<and> list_all nonneg_cost ?ops"
    using h1 h2 h3 by simp
  have a1: "acquire ?s 1 True None ?w
      = Some (Inr True, \<lparr>tb_config = ?c, tokens = 1, last_refill = 0\<rparr>, \<lparr>now = 0, lags = [0, 0, 1, 0]\<rparr>)"
    by (simp add: tb_eval)
  have a2: "acquire \<lparr>tb_config = ?c, tokens = 1, last_refill = 0\<rparr> 2 False None \<lparr>now = 0, lags = [0, 0, 1, 0]\<rparr>
      = Some (Inl (RateLimitExceededError 1), \<lparr>tb_config = ?c, tokens = 1, last_refill = 0\<rparr>,
              \<lparr>now = 0, lags = [1, 0]\<rparr>)"
    by (simp add: tb_eval)
  have a3: "get_available_tokens \<lparr>tb_config = ?c, tokens = 1, last_refill = 0\<rparr> \<lparr>now = 0, lags = [1, 0]\<rparr>
      = Some (2, \<lparr>tb_config = ?c, tokens = 2, last_refill = 1\<rparr>, \<lparr>now = 1, lags = [0]\<rparr>)"
    by (simp add: get_available_tokens_def refill_tokens_def refill_at_def refill_rate_def
        time_time_def py_int_of_float_def)
  have a4: "reset \<lparr>tb_config = ?c, tokens = 2, last_refill = 1\<rparr> \<lparr>now = 1, lags = [0]\<rparr>
      = Some (\<lparr>tb_config = ?c, tokens = 2, last_refill = 1\<rparr>, \<lparr>now = 1, lags = []\<rparr>)"
    by (simp add: reset_def time_time_def)
  have run: "tb_run ?ops ?s ?w
      = [(Acquire 1 True None, Acquired (Inr True),
          \<lparr>tb_config = ?c, tokens = 1, last_refill = 0\<rparr>, \<lparr>now = 0, lags = [0, 0, 1, 0]\<rparr>),
         (Acquire 2 False None, Acquired (Inl (RateLimitExceededError 1)),
          \<lparr>tb_config = ?c, tokens = 1, last_refill = 0\<rparr>, \<lparr>now = 0, lags = [1, 0]\<rparr>),
         (GetAvailableTokens, Available 2,
          \<lparr>tb_config = ?c, tokens = 2, last_refill = 1\<rparr>, \<lparr>now = 1, lags = [0]\<rparr>),
         (Reset, WasReset,
          \<lparr>tb_config = ?c, tokens = 2, last_refill = 1\<rparr>, \<lparr>now = 1, lags = []\<rparr>)]"
    by (simp only: tb_run.simps tb_step.simps a1 a2 a3 a4 option.case prod.case)
  have inv: "\<forall>(operation, out, st, wd) \<in> set (tb_run ?ops ?s ?w).
        0 \<le> tokens st \<and> tokens st \<le> real_of_int (max_requests (tb_config st))"
  proof (clarify)
    fix operation out st wd
    assume mem: "(operation, out, st, wd) \<in> set (tb_run ?ops ?s ?w)"
    from bspec [OF token_bucket_invariant [of ?ops ?s ?w] mem] h
    show "0 \<le> tokens st \<and> tokens st \<le> real_of_int (max_requests (tb_config st))"
      by (simp only: prod.case)
  qed
  then have all: "list_all (\<lambda>(operation, out, st, wd).
        0 \<le> tokens st \<and> tokens st \<le> real_of_int (max_requests (tb_config st)))
      (tb_run ?ops ?s ?w)"
    by (simp only: list_all_iff)
  show ?thesis
    using h1 h2 h3 run all by (intro conjI) assumption+
qed

lemmas sw_eval = sw_acquire_def sw_acquire_loop.simps clean_old_requests_def clean_at_def
  get_request_count_def time_time_def timed_out_def time_sleep_def sw_wait_time_def Let_def
  SlidingWindowRateLimiter_init_def

theorem sliding_window_invariant_witness:
  "RateLimitConfig_post_init \<lparr>max_requests = 2, window_seconds = 1, enabled = True\<rparr>
       = Inr \<lparr>max_requests = 2, window_seconds = 1, enabled = True\<rparr>
   \<and> monotone_clock \<lparr>now = 0, lags = [0, 0, 0, 1 / 2]\<rparr>
   \<and> sw_run [SwAcquire True None, GetRequestCount]
        (SlidingWindowRateLimiter_init \<lparr>max_requests = 2, window_seconds = 1, enabled = True\<rparr>)
        \<lparr>now = 0, lags = [0, 0, 0, 1 / 2]\<rparr>
      = [(SwAcquire True None, SwAcquired (Inr True),
          \<lparr>sw_config = \<lparr>max_requests = 2, window_seconds = 1, enabled = True\<rparr>, requests = [0]\<rparr>,
          \<lparr>now = 0, lags = [1 / 2]\<rparr>),
         (GetRequestCount, RequestCount 1,
          \<lparr>sw_config = \<lparr>max_requests = 2, window_seconds = 1, enabled = True\<rparr>, requests = [0]\<rparr>,
          \<lparr>now = 1 / 2, lags = []\<rparr>)]
   \<and> list_all (\<lambda>(operation, out, st, wd).
      (\<forall>t \<ge> now wd. \<forall>r \<in> set (requests (clean_at t st)).
          t - real_of_int (window_seconds \<lparr>max_requests = 2, window_seconds = 1, enabled = True\<rparr>) \<le> r \<and> r \<le> t)
    \<and> (operation = GetRequestCount \<longrightarrow>
          (\<forall>r \<in> set (requests st).
             now wd - real_of_int (window_seconds \<lparr>max_requests = 2, window_seconds = 1, enabled = True\<rparr>) \<le> r
             \<and> r \<le> now wd))
    \<and> int (length (requests st)) \<le> max_requests \<lparr>max_requests = 2, window_seconds = 1, enabled = True\<rparr>)
     (sw_run [SwAcquire True None, GetRequestCount]
        (SlidingWindowRateLimiter_init \<lparr>max_requests = 2, window_seconds = 1, enabled = True\<rparr>)
        \<lparr>now = 0, lags = [0, 0, 0, 1 / 2]\<rparr>)"
  (is "?A \<and> ?B \<and> ?C \<and> ?D")
proof -
  let ?c = "\<lparr>max_requests = 2, window_seconds = 1, enabled = True\<rparr>"
  let ?w = "\<lparr>now = 0, lags = [0, 0, 0, 1 / 2]\<rparr>"
  let ?ops = "[SwAcquire True None, GetRequestCount]"
  have h1: "RateLimitConfig_post_init ?c = Inr ?c"
    by (simp add: RateLimitConfig_post_init_def)
  have h2: "monotone_clock ?w"
    by (simp add: monotone_clock_def)
  have a1: "sw_acquire (SlidingWindowRateLimiter_init ?c) True None ?w
      = Some (Inr True, \<lparr>sw_config = ?c, requests = [0]\<rparr>, \<lparr>now = 0, lags = [1 / 2]\<rparr>)"
    by (simp add: sw_eval)
  have a2: "get_request_count \<lparr>sw_config = ?c, requests = [0]\<rparr> \<lparr>now = 0, lags = [1 / 2]\<rparr>
      = Some (1, \<lparr>sw_config = ?c, requests = [0]\<rparr>, \<lparr>now = 1 / 2, lags = []\<rparr>)"
    by (simp add: sw_eval)
  have run: "sw_run ?ops (SlidingWindowRateLimiter_init ?c) ?w
      = [(SwAcquire True None, SwAcquired (Inr True),
          \<lparr>sw_config = ?c, requests = [0]\<rparr>, \<lparr>now = 0, lags = [1 / 2]\<rparr>),
         (GetRequestCount, RequestCount 1,
          \<lparr>sw_config = ?c, requests = [0]\<rparr>, \<lparr>now = 1 / 2, lags = []\<rparr>)]"
    by (simp only: sw_run.simps sw_step.simps a1 a2 option.case prod.case)
  have inv: ?D
    using sliding_window_invariant [OF h1 h2, of ?ops] by (simp only: list_all_iff)
  show ?thesis
    using h1 h2 run inv by (intro conjI) assumption+
qed

subsection \<open>Retry delay\<close>

lemma RetryConfig_valid:
  "RetryConfig_post_init c = Inr c \<Longrightarrow>
     1 \<le> max_attempts c \<and> 0 < initial_delay c \<and> initial_delay c \<le> max_delay c
     \<and> 1 < exponential_base c"
  by (auto simp: RetryConfig_post_init_def split: if_splits)

lemma float_overflow_large: "2 ^ 1023 \<le> float_overflow"
proof -
  have "(2 :: real) ^ 970 \<le> 2 ^ 1023"
    by (rule power_increasing) simp_all
  moreover have "(2 :: real) ^ 1024 = 2 * 2 ^ 1023"
    by (simp only: power_Suc [symmetric]) simp
  ultimately show ?thesis
    unfolding float_overflow_def by linarith
qed

lemma base_delay_Inr:
  assumes "RetryConfig_post_init c = Inr c" and "exponential_base c powi n < float_overflow"
  shows "base_delay c n = Inr (min (initial_delay c * (exponential_base c powi n)) (max_delay c))"
proof -
  have "0 < exponential_base c powi n"
    using RetryConfig_valid [OF assms(1)] by simp
  then show ?thesis
    using assms(2) RetryConfig_valid [OF assms(1)]
    by (simp add: base_delay_def py_float_pow_def)
qed

lemma base_delay_overflow:
  assumes "RetryConfig_post_init c = Inr c" and "float_overflow \<le> exponential_base c powi n"
  shows "base_delay c n = Inl OverflowError"
proof -
  have "0 < exponential_base c powi n"
    using RetryConfig_valid [OF assms(1)] by simp
  then show ?thesis
    using assms(2) RetryConfig_valid [OF assms(1)]
    by (simp add: base_delay_def py_float_pow_def)
qed

text \<open>
  Claim C3 as stated fails: with the default configuration (initial delay 1, base 2, maximal
  delay 30), attempt 5 and the random draw 0.75, the delay before jitter is 30, the jitter is
  3.75, and \<^verbatim>\<open>get_delay\<close> returns 33.75, more than \<open>max_delay\<close>.
\<close>

theorem get_delay_exceeds_max_delay:
  "get_delay \<lparr>max_attempts = 3, initial_delay = 1, max_delay = 30, exponential_base = 2,
               retry_on_timeout = True, retry_on_rate_limit = True\<rparr> 5 (3 / 4) = Inr (135 / 4)
   \<and> \<not> (135 / 4 :: real)
        \<le> max_delay \<lparr>max_attempts = 3, initial_delay = 1, max_delay = 30, exponential_base = 2,
               retry_on_timeout = True, retry_on_rate_limit = True\<rparr>"
proof -
  let ?c = "\<lparr>max_attempts = 3, initial_delay = 1, max_delay = 30, exponential_base = 2,
               retry_on_timeout = True, retry_on_rate_limit = True\<rparr>"
  have v: "RetryConfig_post_init ?c = Inr ?c"
    by (simp add: RetryConfig_post_init_def)
  have "(2 :: real) ^ 5 \<le> 2 ^ 1023"
    by (rule power_increasing) simp_all
  moreover have "(2 :: real) ^ 5 < 2 ^ 1023 \<or> (2 :: real) ^ 5 = 2 ^ 1023"
    using calculation by linarith
  moreover have "(2 :: real) ^ 5 \<noteq> 2 ^ 1023"
    by (simp add: power_inject_exp)
  ultimately have "(2 :: real) ^ 5 < float_overflow"
    using float_overflow_large by linarith
  then have "exponential_base ?c powi 5 < float_overflow"
    by simp
  from base_delay_Inr [OF v this]
  have "base_delay ?c 5 = Inr 30"
    by simp
  then show ?thesis
    by (simp add: get_delay_def Let_def)
qed

text \<open>
  Claim C3, amended. For a valid configuration, every attempt index \<open>n \<ge> 0\<close> and every
  random draw \<open>r\<close> in \<open>[0, 1)\<close>: as long as \<open>exponential_base ^ n\<close> is within the range of
  a float, the delay before jitter, \<open>min (initial_delay * exponential_base ^ n) max_delay\<close>,
  is at most \<open>max_delay\<close> and non-decreasing in \<open>n\<close>, and the delay that
  \<^verbatim>\<open>get_delay\<close> returns lies between 0.75 and 1.25 times the delay before jitter, so it
  is at most \<open>1.25 * max_delay\<close>, and at most \<open>max_delay\<close> when \<open>r \<le> 1/2\<close>; beyond
  that range \<^verbatim>\<open>get_delay\<close> raises \<^verbatim>\<open>OverflowError\<close>.
\<close>

theorem get_delay_bounds:
  assumes "RetryConfig_post_init c = Inr c" and "0 \<le> n" and "0 \<le> r" and "r < 1"
  shows "(exponential_base c powi n < float_overflow \<longrightarrow>
            (\<exists>d g. base_delay c n = Inr d \<and> get_delay c n r = Inr g
               \<and> d \<le> max_delay c
               \<and> (\<forall>m. 0 \<le> m \<and> m \<le> n \<longrightarrow> (\<exists>d'. base_delay c m = Inr d' \<and> d' \<le> d))
               \<and> (3 / 4) * d \<le> g \<and> g \<le> (5 / 4) * d \<and> g \<le> (5 / 4) * max_delay c
               \<and> (r \<le> 1 / 2 \<longrightarrow> g \<le> max_delay c)))
       \<and> (float_overflow \<le> exponential_base c powi n \<longrightarrow> get_delay c n r = Inl OverflowError)"
proof (intro conjI impI)
  note v = RetryConfig_valid [OF assms(1)]
  {
    assume "float_overflow \<le> exponential_base c powi n"
    then show "get_delay c n r = Inl OverflowError"
      using base_delay_overflow [OF assms(1)] by (simp add: get_delay_def)
  }
  {
    assume range: "exponential_base c powi n < float_overflow"
    define d where "d = min (initial_delay c * (exponential_base c powi n)) (max_delay c)"
    define g where "g = max 0 (d + d * (1 / 4) * (2 * r - 1))"
    have bd: "base_delay c n = Inr d"
      using base_delay_Inr [OF assms(1) range] by (simp add: d_def)
    have gd: "get_delay c n r = Inr g"
      using bd by (simp add: get_delay_def g_def Let_def)
    have "0 < exponential_base c powi n"
      using v by simp
    then have "0 < initial_delay c * (exponential_base c powi n)"
      using v by simp
    moreover have "0 < max_delay c"
      using v by linarith
    ultimately have d: "0 < d" "d \<le> max_delay c"
      by (simp_all add: d_def)
    have mono: "\<exists>d'. base_delay c m = Inr d' \<and> d' \<le> d" if "0 \<le> m \<and> m \<le> n" for m
    proof -
      have le: "exponential_base c powi m \<le> exponential_base c powi n"
        using power_int_increasing [of m n "exponential_base c"] that v by simp
      then have "exponential_base c powi m < float_overflow"
        using range by linarith
      then have "base_delay c m = Inr (min (initial_delay c * (exponential_base c powi m)) (max_delay c))"
        by (rule base_delay_Inr [OF assms(1)])
      moreover have "initial_delay c * (exponential_base c powi m)
          \<le> initial_delay c * (exponential_base c powi n)"
        using le v by (simp add: mult_left_mono)
      ultimately show ?thesis
        by (simp add: d_def min_def)
    qed
    have expand: "d + d * (1 / 4) * (2 * r - 1) = (3 / 4) * d + (1 / 2) * (d * r)"
      by (simp add: field_simps)
    have dr0: "0 \<le> d * r"
      using d assms(3) by simp
    have dr1: "d * r < d"
      using d assms(4) by simp
    have g: "g = (3 / 4) * d + (1 / 2) * (d * r)"
      unfolding g_def expand using dr0 d by simp
    have lo: "(3 / 4) * d \<le> g"
      unfolding g using dr0 by linarith
    have hi: "g \<le> (5 / 4) * d"
      unfolding g using dr1 by linarith
    have hi': "g \<le> (5 / 4) * max_delay c"
      using hi d by linarith
    have half: "g \<le> max_delay c" if "r \<le> 1 / 2"
    proof -
      have "d * r \<le> d * (1 / 2)"
        using d that by (simp only: mult_le_cancel_left_pos)
      then show ?thesis
        unfolding g using d by linarith
    qed
    show "\<exists>d g. base_delay c n = Inr d \<and> get_delay c n r = Inr g
               \<and> d \<le> max_delay c
               \<and> (\<forall>m. 0 \<le> m \<and> m \<le> n \<longrightarrow> (\<exists>d'. base_delay c m = Inr d' \<and> d' \<le> d))
               \<and> (3 / 4) * d \<le> g \<and> g \<le> (5 / 4) * d \<and> g \<le> (5 / 4) * max_delay c
               \<and> (r \<le> 1 / 2 \<longrightarrow> g \<le> max_delay c)"
      using bd gd d(2) mono lo hi hi' half by blast
  }
qed

theorem get_delay_bounds_witness:
  "RetryConfig_post_init \<lparr>max_attempts = 3, initial_delay = 1, max_delay = 30, exponential_base = 2,
               retry_on_timeout = True, retry_on_rate_limit = True\<rparr>
     = Inr \<lparr>max_attempts = 3, initial_delay = 1, max_delay = 30, exponential_base = 2,
               retry_on_timeout = True, retry_on_rate_limit = True\<rparr>
   \<and> (0 :: int) \<le> 5 \<and> (0 :: real) \<le> 3 / 4 \<and> (3 / 4 :: real) < 1
   \<and> (2 :: real) powi 5 < float_overflow
   \<and> (\<exists>d g. base_delay \<lparr>max_attempts = 3, initial_delay = 1, max_delay = 30, exponential_base = 2,
               retry_on_timeout = True, retry_on_rate_limit = True\<rparr> 5 = Inr d
        \<and> get_delay \<lparr>max_attempts = 3, initial_delay = 1, max_delay = 30, exponential_base = 2,
               retry_on_timeout = True, retry_on_rate_limit = True\<rparr> 5 (3 / 4) = Inr g
        \<and> d \<le> 30 \<and> (3 / 4) * d \<le> g \<and> g \<le> (5 / 4) * d \<and> g \<le> (5 / 4) * 30)
   \<and> (float_overflow \<le> (2 :: real) powi 1024
   \<and> get_delay \<lparr>max_attempts = 3, initial_delay = 1, max_delay = 30, exponential_base = 2,
               retry_on_timeout = True, retry_on_rate_limit = True\<rparr> 1024 (3 / 4) = Inl OverflowError)"
proof -
  let ?c = "\<lparr>max_attempts = 3, initial_delay = 1, max_delay = 30, exponential_base = 2,
               retry_on_timeout = True, retry_on_rate_limit = True\<rparr>"
  have h1: "RetryConfig_post_init ?c = Inr ?c"
    by (simp add: RetryConfig_post_init_def)
  have h2: "(0 :: int) \<le> 5" by simp
  have h2': "(0 :: int) \<le> 1024" by simp
  have h3: "(0 :: real) \<le> 3 / 4" by simp
  have h4: "(3 / 4 :: real) < 1" by simp
  have "(2 :: real) ^ 5 < 2 ^ 1023"
    by (rule power_strict_increasing) simp_all
  then have small: "(2 :: real) powi 5 < float_overflow"
    using float_overflow_large by simp
  have "(0 :: real) \<le> 2 ^ 970" by simp
  then have big: "float_overflow \<le> (2 :: real) powi 1024"
    unfolding float_overflow_def by (simp only: power_int_numeral)
  from get_delay_bounds [OF h1 h2 h3 h4] small
  have a: "\<exists>d g. base_delay ?c 5 = Inr d \<and> get_delay ?c 5 (3 / 4) = Inr g
        \<and> d \<le> 30 \<and> (3 / 4) * d \<le> g \<and> g \<le> (5 / 4) * d \<and> g \<le> (5 / 4) * 30"
    by (simp only: RetryConfig.simps) blast
  from get_delay_bounds [OF h1 h2' h3 h4] big
  have b: "get_delay ?c 1024 (3 / 4) = Inl OverflowError"
    by (simp only: RetryConfig.simps)
  show ?thesis
    using h1 h2 h3 h4 small a big b by (intro conjI) assumption+
qed


subsection \<open>HTTP client\<close>

lemma HttpClient_post_timeout:
  "transport h = TimeoutException e # rest \<Longrightarrow>
     HttpClient_post h endpoint json_data
       = Some (Inl (ApiTimeoutError (config_timeout h) endpoint), h\<lparr>transport := rest\<rparr>)"
  by (simp add: HttpClient_post_def)

lemma HttpClient_post_one_call:
  "HttpClient_post h endpoint json_data = Some (r, h') \<Longrightarrow>
     length (transport h') + 1 = length (transport h)"
  by (auto simp: HttpClient_post_def split: list.splits)

text \<open>
  Claim C1 at its scenario: the configuration allows three attempts and retries on timeouts,
  the transport times out twice and would answer 200 to a third request.
  \<^verbatim>\<open>HttpClient.post\<close> makes one transport call and raises \<^verbatim>\<open>ApiTimeoutError\<close>: the
  two remaining outcomes are never asked for, and the method has no way to wait.
\<close>

theorem post_raises_on_first_timeout:
  "HttpClient_post
     \<lparr>config_timeout = 30,
      retry_config = \<lparr>max_attempts = 3, initial_delay = 1, max_delay = 30, exponential_base = 2,
                      retry_on_timeout = True, retry_on_rate_limit = True\<rparr>,
      transport = [TimeoutException ''timed out'', TimeoutException ''timed out'',
                   Response \<lparr>status_code = 200,
                             body = Some (JDict [(''valid'', JBool True)]),
                             retry_after_hdr = NoRetryAfter\<rparr>]\<rparr>
     ''/verify-pin'' (JDict [(''pin'', JStr ''P051234567A'')])
   = Some (Inl (ApiTimeoutError 30 ''/verify-pin''),
           \<lparr>config_timeout = 30,
            retry_config = \<lparr>max_attempts = 3, initial_delay = 1, max_delay = 30, exponential_base = 2,
                            retry_on_timeout = True, retry_on_rate_limit = True\<rparr>,
            transport = [TimeoutException ''timed out'',
                         Response \<lparr>status_code = 200,
                                   body = Some (JDict [(''valid'', JBool True)]),
                                   retry_after_hdr = NoRetryAfter\<rparr>]\<rparr>)"
  by (simp add: HttpClient_post_def)

subsection \<open>Cache\<close>

lemma map_of_filter_append:
  "map_of (filter (\<lambda>(k', x). k' \<noteq> k) xs @ [(k, y)]) k = Some y"
  by (induction xs) auto

lemma TTLCache_setitem_lookup:
  assumes "1 \<le> maxsize c"
  shows "\<exists>c'. TTLCache_setitem c k v t = (None, c') \<and> map_of (links c') k = Some (v, t + timer_ttl c)"
  using assms
  by (simp add: TTLCache_setitem_def TTLCache_expire_def Let_def map_of_filter_append
      del: map_of_append)

lemma cache_get_after_set:
  assumes "cache_enabled (cm_config m)" and "1 \<le> maxsize (backend m)" and "0 < T"
  shows "fst (CacheManager_get (CacheManager_set m k v (Some T) t0) k t1)
           = (if t1 < t0 + min (real_of_int T) (timer_ttl (backend m)) then Some v else None)"
proof -
  obtain b where set: "TTLCache_setitem (backend m) k (CacheEntry v (t0 + real_of_int T)) t0 = (None, b)"
    and look: "map_of (links b) k = Some (CacheEntry v (t0 + real_of_int T), t0 + timer_ttl (backend m))"
    using TTLCache_setitem_lookup [OF assms(2)] by blast
  have m': "CacheManager_set m k v (Some T) t0 = m\<lparr>backend := b\<rparr>"
    using assms(1,3) set by (simp add: CacheManager_set_def MemoryCacheBackend_set_def Let_def)
  show ?thesis
    unfolding m' using assms(1) look
    by (auto simp: CacheManager_get_def MemoryCacheBackend_get_def TTLCache_get_def)
qed

text \<open>
  Claim C2 at a failing input: the default configuration (entries of the backend live 3600
  seconds), a value stored at time 0 with \<^verbatim>\<open>ttl=7200\<close> and looked up at time 4000. The
  elapsed time is below the TTL of the call, and the lookup returns \<^verbatim>\<open>None\<close>.
\<close>

theorem cache_entry_lost_at_backend_ttl:
  "fst (CacheManager_get
          (CacheManager_set
             (CacheManager_init \<lparr>cache_enabled = True, ttl = 3600, max_size = 1000\<rparr>)
             ''pin:k'' (1 :: nat) (Some 7200) 0)
          ''pin:k'' 4000) = None
   \<and> (4000 :: real) - 0 < real_of_int 7200"
  by (simp add: cache_get_after_set CacheManager_init_def MemoryCacheBackend_init_def)

subsection \<open>Cache keys\<close>

lemma sort_key_fst_permutation:
  fixes xs ys :: "(string \<times> 'a) list"
  assumes "distinct (map fst xs)" and "mset xs = mset ys"
  shows "sort_key fst xs = sort_key fst ys"
proof (rule sort_key_inj_key_eq)
  show "mset xs = mset (sort_key fst ys)"
    using assms(2) by simp
  show "inj_on fst (set xs)"
    using assms(1) by (simp add: distinct_map)
  show "sorted (map fst (sort_key fst ys))"
    by simp
qed

lemma json_dumps_dict_permutation:
  assumes "distinct (map fst kw1)" and "mset kw1 = mset kw2"
  shows "json_dumps (JDict kw1) = json_dumps (JDict kw2)"
proof -
  let ?f = "\<lambda>(k, v). (k, json_dumps v)"
  have "map fst (map ?f kw1) = map fst kw1"
    by (simp add: case_prod_beta comp_def)
  then have "distinct (map fst (map ?f kw1))"
    using assms(1) by (simp only:)
  moreover have "mset (map ?f kw1) = mset (map ?f kw2)"
    using assms(2) by (metis mset_map)
  ultimately have "sort_key fst (map ?f kw1) = sort_key fst (map ?f kw2)"
    by (rule sort_key_fst_permutation)
  then show ?thesis by simp
qed

text \<open>
  Claim C8. \<^verbatim>\<open>generate_key\<close> is a function of its arguments, and for every prefix two
  calls whose keyword arguments are the same name/value pairs (names distinct, as in every
  Python call) in any order return the same key; the key is the prefix, a colon and the
  digest of the canonical parameter string, hence a string of hexadecimal digits after the
  colon whenever the digest function returns hexadecimal digits.
\<close>

theorem generate_key_order_independent:
  assumes "distinct (map fst kw1)" and "mset kw1 = mset kw2"
  shows "generate_key md5_hexdigest prefix kw1 = generate_key md5_hexdigest prefix kw2
       \<and> generate_key md5_hexdigest prefix kw1
           = prefix @ '':'' @ md5_hexdigest (json_dumps (JDict kw1))
       \<and> ((\<forall>s. set (md5_hexdigest s) \<subseteq> set ''0123456789abcdef'') \<longrightarrow>
            (\<exists>digest. generate_key md5_hexdigest prefix kw1 = prefix @ '':'' @ digest
                \<and> set digest \<subseteq> set ''0123456789abcdef''))"
  using json_dumps_dict_permutation [OF assms]
  by (simp add: generate_key_def Let_def)

theorem generate_key_order_independent_witness:
  "distinct (map fst [(''a'', JInt 1), (''b'', JInt 2)])
   \<and> mset [(''a'', JInt 1), (''b'', JInt 2)] = mset [(''b'', JInt 2), (''a'', JInt 1)]
   \<and> (\<forall>h. generate_key h ''pin'' [(''a'', JInt 1), (''b'', JInt 2)]
            = generate_key h ''pin'' [(''b'', JInt 2), (''a'', JInt 1)])"
proof -
  have h1: "distinct (map fst [(''a'', JInt 1), (''b'', JInt 2)])" by simp
  have h2: "mset [(''a'', JInt 1), (''b'', JInt 2)] = mset [(''b'', JInt 2), (''a'', JInt 1)]"
    by simp
  from generate_key_order_independent [OF h1 h2] h1 h2
  show ?thesis by blast
qed

lemma json_dumps_example:
  "json_dumps (JDict [(''b'', JInt 2), (''a'', JInt 1)])
     = [CHR ''{'', CHR 0x22, CHR ''a'', CHR 0x22, CHR '':'', CHR '' '', CHR ''1'', CHR '','', CHR '' '',
        CHR 0x22, CHR ''b'', CHR 0x22, CHR '':'', CHR '' '', CHR ''2'', CHR ''}'']"
  by (simp add: encode_basestring_ascii_def escape_char_def str_int_def insort_key.simps
      less_eq_char_def less_char_def)

subsection \<open>The cacheable read\<close>

text \<open>
  Claim C9. When the PIN is well formed and the cache lookup of \<^verbatim>\<open>verify_pin\<close> hits,
  the cached result is returned at once: the only clock reading is that of the lookup, the
  rate limiter is neither asked nor changed, and no transport call is made (the outcomes
  still to come are those before the call).
\<close>

theorem verify_pin_cache_hit:
  assumes "validate_pin_format pin_number = Inr normalized_pin"
    and "time_time w = Some (t, w1)"
    and "CacheManager_get (cache_manager c)
           (generate_key md5_hexdigest ''pin'' [(''pin_number'', JStr normalized_pin)]) t
         = (Some cached_result, m1)"
  shows "verify_pin md5_hexdigest make_result c pin_number w
           = Some (Inr cached_result, c\<lparr>cache_manager := m1\<rparr>, w1)
       \<and> rate_limiter (c\<lparr>cache_manager := m1\<rparr>) = rate_limiter c
       \<and> http_client (c\<lparr>cache_manager := m1\<rparr>) = http_client c"
proof -
  let ?key = "generate_key md5_hexdigest ''pin'' [(''pin_number'', JStr normalized_pin)]"
  have "cache_enabled (cm_config (cache_manager c))"
    using assms(3) by (auto simp: CacheManager_get_def split: if_splits)
  moreover have "map_of (links (backend (cache_manager c))) ?key \<noteq> None"
    using assms(3)
    by (auto simp: CacheManager_get_def MemoryCacheBackend_get_def TTLCache_get_def
        split: if_splits option.splits)
  ultimately have "CacheManager_get_w (cache_manager c) ?key w = Some ((Some cached_result, m1), w1)"
    using assms(2,3) by (simp add: CacheManager_get_w_def)
  then show ?thesis
    using assms(1) by (simp add: verify_pin_def Let_def)
qed

lemma validate_pin_example: "validate_pin_format ''P051234567A'' = Inr ''P051234567A''"
  by (simp add: validate_pin_format_def py_upper_def py_strip_def is_space_def PIN_REGEX_match_def
      is_digit_def less_eq_char_def Let_def)

theorem verify_pin_cache_hit_witness:
  "validate_pin_format ''P051234567A'' = Inr ''P051234567A''
   \<and> time_time \<lparr>now = 10, lags = [0]\<rparr> = Some (10, \<lparr>now = 10, lags = []\<rparr>)
   \<and> fst (CacheManager_get
        (CacheManager_set (CacheManager_init \<lparr>cache_enabled = True, ttl = 3600, max_size = 1000\<rparr>)
           (generate_key (\<lambda>s. s) ''pin'' [(''pin_number'', JStr ''P051234567A'')]) (7 :: nat) None 0)
        (generate_key (\<lambda>s. s) ''pin'' [(''pin_number'', JStr ''P051234567A'')]) 10) = Some 7
   \<and> (\<exists>c'. verify_pin (\<lambda>s. s) (\<lambda>p j. None)
        \<lparr>http_client = \<lparr>config_timeout = 30,
            retry_config = \<lparr>max_attempts = 3, initial_delay = 1, max_delay = 30, exponential_base = 2,
                            retry_on_timeout = True, retry_on_rate_limit = True\<rparr>,
            transport = []\<rparr>,
         cache_manager =
           CacheManager_set (CacheManager_init \<lparr>cache_enabled = True, ttl = 3600, max_size = 1000\<rparr>)
             (generate_key (\<lambda>s. s) ''pin'' [(''pin_number'', JStr ''P051234567A'')]) (7 :: nat) None 0,
         rate_limiter = \<lparr>tb_config = \<lparr>max_requests = 2, window_seconds = 1, enabled = True\<rparr>,
                         tokens = 0, last_refill = 0\<rparr>\<rparr>
        ''P051234567A'' \<lparr>now = 10, lags = [0]\<rparr>
      = Some (Inr 7, c', \<lparr>now = 10, lags = []\<rparr>)
      \<and> rate_limiter c' = \<lparr>tb_config = \<lparr>max_requests = 2, window_seconds = 1, enabled = True\<rparr>,
                             tokens = 0, last_refill = 0\<rparr>
      \<and> transport (http_client c') = [])"
proof -
  let ?key = "generate_key (\<lambda>s. s) ''pin'' [(''pin_number'', JStr ''P051234567A'')]"
  let ?m = "CacheManager_set (CacheManager_init \<lparr>cache_enabled = True, ttl = 3600, max_size = 1000\<rparr>)
             ?key (7 :: nat) None 0"
  let ?c = "\<lparr>http_client = \<lparr>config_timeout = 30,
            retry_config = \<lparr>max_attempts = 3, initial_delay = 1, max_delay = 30, exponential_base = 2,
                            retry_on_timeout = True, retry_on_rate_limit = True\<rparr>,
            transport = []\<rparr>,
         cache_manager = ?m,
         rate_limiter = \<lparr>tb_config = \<lparr>max_requests = 2, window_seconds = 1, enabled = True\<rparr>,
                         tokens = 0, last_refill = 0\<rparr>\<rparr>"
  have h1: "validate_pin_format ''P051234567A'' = Inr ''P051234567A''"
    by (rule validate_pin_example)
  have h2: "time_time \<lparr>now = 10, lags = [0]\<rparr> = Some (10, \<lparr>now = 10, lags = []\<rparr>)"
    by (simp add: time_time_def)
  have same: "?m = CacheManager_set (CacheManager_init \<lparr>cache_enabled = True, ttl = 3600, max_size = 1000\<rparr>)
             ?key (7 :: nat) (Some 3600) 0"
    by (simp add: CacheManager_set_def CacheManager_init_def)
  have hit: "fst (CacheManager_get ?m ?key 10) = Some 7"
    unfolding same
    by (simp add: cache_get_after_set CacheManager_init_def MemoryCacheBackend_init_def)
  then have h3: "CacheManager_get (cache_manager ?c) ?key 10
      = (Some 7, snd (CacheManager_get ?m ?key 10))"
    by (simp add: prod_eq_iff)
  from verify_pin_cache_hit [OF h1 h2 h3, of "\<lambda>p j. None"] h1 h2 hit
  show ?thesis by simp
qed

end
